theory Spec2Isabelle
  imports Complex_Main "HOL-Library.AList"
begin

section \<open>Data model of the backtester\<close>

text \<open>
  The backtester (\<^verbatim>\<open>src/strategies/backtester.py\<close>) replays price rows through a trader,
  checks the trader's orders against position limits, matches them against the book of
  the timestamp and writes three kinds of log rows. Python exceptions are values of
  \<open>py_error\<close>; a function that can raise returns \<open>py_error + 'a\<close>.

  Python \<^verbatim>\<open>int\<close> is \<open>int\<close>. Python \<^verbatim>\<open>float\<close> is modelled by \<open>real\<close>: the value a float
  denotes, with exact arithmetic (rounding is not modelled).
  A \<^verbatim>\<open>dict\<close> whose keys are enumerated by the code (the two sides of an order book) is an
  association list in insertion order, written with \<open>AList.update\<close> for \<^verbatim>\<open>d[k] = v\<close> and
  \<open>AList.delete\<close> for \<^verbatim>\<open>d.pop(k)\<close>; a \<^verbatim>\<open>dict\<close> that is only looked up is a map; a
  \<^verbatim>\<open>defaultdict\<close> that is only looked up is a total function.
\<close>

datatype py_error = KeyError | IndexError | TypeError

type_synonym Symbol = string
type_synonym Product = string

text \<open>
  Modelled from the spec: the classes \<^verbatim>\<open>Order\<close>, \<^verbatim>\<open>OrderDepth\<close>, \<^verbatim>\<open>Trade\<close> and
  \<^verbatim>\<open>TradingState\<close> are imported from the module \<^verbatim>\<open>datamodel\<close>, which is not among the
  sources. Their fields are taken from the spec's data model (ProposedOrder, OrderBook,
  TradeRecord, SessionState) and from the constructor calls and field accesses in
  \<^verbatim>\<open>backtester.py\<close>. The price of a trade is an \<^verbatim>\<open>int\<close> for the engine's own trades and a
  \<^verbatim>\<open>float\<close> for historical trades, hence the type parameter.
\<close>

record Order =
  symbol :: Symbol
  price :: int
  quantity :: int

record OrderDepth =
  buy_orders :: "(int \<times> int) list"
  sell_orders :: "(int \<times> int) list"

record 'p Trade =
  symbol :: Symbol
  price :: 'p
  quantity :: int
  buyer :: string
  seller :: string
  timestamp :: int

record PriceRow =
  day :: int
  timestamp :: int
  product :: Product
  bid_prices :: "int list"
  bid_volumes :: "int list"
  ask_prices :: "int list"
  ask_volumes :: "int list"
  mid_price :: real
  profit_loss :: real

text \<open>
  \<^verbatim>\<open>TradingState(timestamp, listings, order_depths, own_trades, market_trades, position,
  observations)\<close>. A listing is the dict literal of lines 167 to 171, as a list of its
  items.
\<close>

record TradingState =
  timestamp :: int
  listings :: "Product \<rightharpoonup> (string \<times> string) list"
  order_depths :: "Symbol \<rightharpoonup> OrderDepth"
  own_trades :: "Symbol \<rightharpoonup> int Trade list"
  market_trades :: "Symbol \<rightharpoonup> real Trade list"
  position :: "Product \<rightharpoonup> int"
  observations :: "Product \<rightharpoonup> int"

text \<open>
  The columns of an activity row are a \<^verbatim>\<open>list[Any]\<close>: integers, floats and strings (the
  product name, and \<^verbatim>\<open>""\<close> for an absent book level).
\<close>

datatype cell = CInt int | CFloat real | CStr string

record SandboxLogRow =
  timestamp :: int
  data :: string

record SubmissionLogRow =
  timestamp :: int
  data :: string

record ActivityLogRow =
  columns :: "cell list"

record DayResult =
  round' :: int
  day :: int
  sandbox_logs :: "SandboxLogRow list"
  submission_logs :: "SubmissionLogRow list"
  activity_logs :: "ActivityLogRow list"

text \<open>The table \<^verbatim>\<open>LIMITS\<close> of the source, in its order.\<close>

definition LIMITS :: "(Product \<times> int) list" where
  "LIMITS =
    [(''PEARLS'', 20), (''BANANAS'', 20), (''COCONUTS'', 600), (''PINA_COLADAS'', 300),
     (''DIVING_GEAR'', 50), (''BERRIES'', 250), (''BAGUETTE'', 150), (''DIP'', 300),
     (''UKULELE'', 70), (''PICNIC_BASKET'', 70)]"

section \<open>Matching one order against the book\<close>

text \<open>
  The variables of \<^verbatim>\<open>run_backtest\<close> that matching reads and writes. \<open>order_depths\<close> is
  rebuilt at every timestamp; \<open>own_trades\<close> is the \<^verbatim>\<open>defaultdict(list)\<close> created before
  matching at every timestamp; \<open>own_positions\<close> (\<^verbatim>\<open>defaultdict(int)\<close>) and
  \<open>seashells_by_product\<close> (\<^verbatim>\<open>defaultdict(float)\<close>) live for the whole session.
\<close>

record match_state =
  order_depths :: "Symbol \<rightharpoonup> OrderDepth"
  own_trades :: "Symbol \<rightharpoonup> int Trade list"
  own_positions :: "Symbol \<Rightarrow> int"
  seashells_by_product :: "Symbol \<Rightarrow> real"

text \<open>\<^verbatim>\<open>own_trades[sym].append(t)\<close> on a \<^verbatim>\<open>defaultdict(list)\<close>.\<close>

definition append_trade :: "('k \<rightharpoonup> 'a list) \<Rightarrow> 'k \<Rightarrow> 'a \<Rightarrow> ('k \<rightharpoonup> 'a list)" where
  "append_trade m k t = m(k \<mapsto> (case m k of None \<Rightarrow> [] | Some ts \<Rightarrow> ts) @ [t])"

text \<open>
  Lines 220 to 235: the loop over \<open>price_matches\<close> of a buy order. The order object and
  the \<^verbatim>\<open>OrderDepth\<close> object \<open>order_depth\<close> are mutated in place, so both are threaded
  through the loop together with the session variables; \<open>ts\<close> is the timestamp.
  \<open>Inr (ord', od', s')\<close> is the state when the loop ends, by exhaustion or by \<^verbatim>\<open>break\<close>.
\<close>

fun buy_loop ::
  "int \<Rightarrow> int list \<Rightarrow> Order \<Rightarrow> OrderDepth \<Rightarrow> match_state \<Rightarrow>
     py_error + (Order \<times> OrderDepth \<times> match_state)" where
  "buy_loop ts [] ord od s = Inr (ord, od, s)"
| "buy_loop ts (p # ps) ord od s =
     (case map_of (sell_orders od) p of
        None \<Rightarrow> Inl KeyError
      | Some v \<Rightarrow>
          let volume = min (Order.quantity ord) (abs v);
              s1 = s\<lparr>own_trades := append_trade (own_trades s) (Order.symbol ord)
                        \<lparr>Trade.symbol = Order.symbol ord, price = p, quantity = volume,
                         buyer = ''SUBMISSION'', seller = '''', timestamp = ts\<rparr>,
                     own_positions := (own_positions s)
                        (Order.symbol ord := own_positions s (Order.symbol ord) + volume),
                     seashells_by_product := (seashells_by_product s)
                        (Order.symbol ord :=
                           seashells_by_product s (Order.symbol ord) - of_int (p * volume))\<rparr>;
              so1 = AList.update p (v + volume) (sell_orders od);
              od1 = od\<lparr>sell_orders := (if v + volume = 0 then AList.delete p so1 else so1)\<rparr>;
              ord1 = ord\<lparr>Order.quantity := Order.quantity ord - volume\<rparr>
          in if Order.quantity ord1 = 0 then Inr (ord1, od1, s1)
             else buy_loop ts ps ord1 od1 s1)"

text \<open>Lines 237 to 252: the loop over \<open>price_matches\<close> of a sell order.\<close>

fun sell_loop ::
  "int \<Rightarrow> int list \<Rightarrow> Order \<Rightarrow> OrderDepth \<Rightarrow> match_state \<Rightarrow>
     py_error + (Order \<times> OrderDepth \<times> match_state)" where
  "sell_loop ts [] ord od s = Inr (ord, od, s)"
| "sell_loop ts (p # ps) ord od s =
     (case map_of (buy_orders od) p of
        None \<Rightarrow> Inl KeyError
      | Some v \<Rightarrow>
          let volume = min (abs (Order.quantity ord)) v;
              s1 = s\<lparr>own_trades := append_trade (own_trades s) (Order.symbol ord)
                        \<lparr>Trade.symbol = Order.symbol ord, price = p, quantity = volume,
                         buyer = '''', seller = ''SUBMISSION'', timestamp = ts\<rparr>,
                     own_positions := (own_positions s)
                        (Order.symbol ord := own_positions s (Order.symbol ord) - volume),
                     seashells_by_product := (seashells_by_product s)
                        (Order.symbol ord :=
                           seashells_by_product s (Order.symbol ord) + of_int (p * volume))\<rparr>;
              bo1 = AList.update p (v - volume) (buy_orders od);
              od1 = od\<lparr>buy_orders := (if v - volume = 0 then AList.delete p bo1 else bo1)\<rparr>;
              ord1 = ord\<lparr>Order.quantity := Order.quantity ord + volume\<rparr>
          in if Order.quantity ord1 = 0 then Inr (ord1, od1, s1)
             else sell_loop ts ps ord1 od1 s1)"

text \<open>
  Lines 217 to 252: the body of the loop over the orders of a batch.
  \<open>order_depths[order.symbol]\<close> raises \<^verbatim>\<open>KeyError\<close> for a symbol without a book. The
  mutated \<^verbatim>\<open>OrderDepth\<close> is the object stored in \<open>order_depths\<close>, so the result stores it
  back. The mutated order is not read again.
\<close>

definition match_order :: "int \<Rightarrow> Order \<Rightarrow> match_state \<Rightarrow> py_error + match_state" where
  "match_order ts ord s =
     (case order_depths s (Order.symbol ord) of
        None \<Rightarrow> Inl KeyError
      | Some od \<Rightarrow>
          if Order.quantity ord > 0 then
            (case buy_loop ts
                    (sort (filter (\<lambda>p. p \<le> Order.price ord) (map fst (sell_orders od))))
                    ord od s of
               Inl e \<Rightarrow> Inl e
             | Inr (ord', od', s') \<Rightarrow>
                 Inr (s'\<lparr>order_depths := (order_depths s')(Order.symbol ord \<mapsto> od')\<rparr>))
          else if Order.quantity ord < 0 then
            (case sell_loop ts
                    (rev (sort (filter (\<lambda>p. p \<ge> Order.price ord) (map fst (buy_orders od)))))
                    ord od s of
               Inl e \<Rightarrow> Inl e
             | Inr (ord', od', s') \<Rightarrow>
                 Inr (s'\<lparr>order_depths := (order_depths s')(Order.symbol ord \<mapsto> od')\<rparr>))
          else Inr s)"

section \<open>The session runner\<close>

record DayData =
  prices :: "PriceRow list"
  trades :: "real Trade list"

text \<open>
  Lines 156 to 165. \<open>prices_by_timestamp\<close> and \<open>trades_by_timestamp\<close> are
  \<^verbatim>\<open>defaultdict\<close>s that the loops below fill; the keys of \<open>prices_by_timestamp\<close> are the
  timestamps of the rows, so \<^verbatim>\<open>sorted(prices_by_timestamp.keys())\<close> is \<open>timestamps\<close>.
\<close>

definition prices_by_timestamp :: "PriceRow list \<Rightarrow> int \<Rightarrow> (Product \<rightharpoonup> PriceRow)" where
  "prices_by_timestamp rows =
     fold (\<lambda>row m. m(PriceRow.timestamp row := (m (PriceRow.timestamp row))(product row \<mapsto> row)))
       rows (\<lambda>_. Map.empty)"

definition timestamps :: "PriceRow list \<Rightarrow> int list" where
  "timestamps rows = sort (remdups (map PriceRow.timestamp rows))"

definition trades_by_timestamp :: "real Trade list \<Rightarrow> int \<Rightarrow> (Symbol \<rightharpoonup> real Trade list)" where
  "trades_by_timestamp ts =
     fold (\<lambda>t m. m(Trade.timestamp t := append_trade (m (Trade.timestamp t)) (Trade.symbol t) t))
       ts (\<lambda>_. Map.empty)"

definition tradable_products :: "PriceRow list \<Rightarrow> Product set" where
  "tradable_products rows = set (map product (filter (\<lambda>row. length (bid_prices row) > 0) rows))"

definition non_tradable_products :: "PriceRow list \<Rightarrow> Product set" where
  "non_tradable_products rows =
     set (map product (filter (\<lambda>row. length (bid_prices row) = 0) rows))"

text \<open>
  Python iterates over the two sets in an order that the language leaves open. The
  functions below take the order as lists \<open>tp\<close> (tradable) and \<open>ntp\<close> (non-tradable); a
  run of the source corresponds to lists that enumerate the two sets without repetition.
\<close>

definition iteration_order :: "Product list \<Rightarrow> Product set \<Rightarrow> bool" where
  "iteration_order ps S \<longleftrightarrow> distinct ps \<and> set ps = S"

definition listings_of :: "Product list \<Rightarrow> (Product \<rightharpoonup> (string \<times> string) list)" where
  "listings_of tp =
     (\<lambda>p. if p \<in> set tp
          then Some [(''symbol'', p), (''product'', p), (''denomination'', ''SEASHELLS'')]
          else None)"

text \<open>Lines 179 to 188: the books of a timestamp, from the price rows of that timestamp.\<close>

definition order_depth_of_row :: "PriceRow \<Rightarrow> OrderDepth" where
  "order_depth_of_row row =
     \<lparr>buy_orders = fold (\<lambda>(p, v) d. AList.update p v d)
                       (zip (bid_prices row) (bid_volumes row)) [],
      sell_orders = fold (\<lambda>(p, v) d. AList.update p (- v) d)
                       (zip (ask_prices row) (ask_volumes row)) []\<rparr>"

fun build_order_depths ::
  "(Product \<rightharpoonup> PriceRow) \<Rightarrow> Product list \<Rightarrow> (Symbol \<rightharpoonup> OrderDepth) \<Rightarrow>
     py_error + (Symbol \<rightharpoonup> OrderDepth)" where
  "build_order_depths rows [] ods = Inr ods"
| "build_order_depths rows (p # ps) ods =
     (case rows p of
        None \<Rightarrow> Inl KeyError
      | Some row \<Rightarrow> build_order_depths rows ps (ods(p \<mapsto> order_depth_of_row row)))"

text \<open>Python's \<^verbatim>\<open>int(x)\<close> on a float truncates towards zero.\<close>

definition py_int :: "real \<Rightarrow> int" where
  "py_int x = (if x \<ge> 0 then \<lfloor>x\<rfloor> else \<lceil>x\<rceil>)"

text \<open>Line 192: the observations, one per non-tradable product.\<close>

fun build_observations ::
  "(Product \<rightharpoonup> PriceRow) \<Rightarrow> Product list \<Rightarrow> (Product \<rightharpoonup> int) \<Rightarrow>
     py_error + (Product \<rightharpoonup> int)" where
  "build_observations rows [] obs = Inr obs"
| "build_observations rows (p # ps) obs =
     (case rows p of
        None \<Rightarrow> Inl KeyError
      | Some row \<Rightarrow> build_observations rows ps (obs(p \<mapsto> py_int (mid_price row))))"

subsection \<open>The limit check\<close>

text \<open>Formatting an integer as \<^verbatim>\<open>str\<close> does: decimal digits, a minus sign when negative.\<close>

fun str_nat :: "nat \<Rightarrow> string" where
  "str_nat n =
     (if n < 10 then [''0123456789'' ! n]
      else str_nat (n div 10) @ [''0123456789'' ! (n mod 10)])"

declare str_nat.simps [simp del]

definition str_int :: "int \<Rightarrow> string" where
  "str_int i = (if i < 0 then ''-'' @ str_nat (nat (- i)) else str_nat (nat i))"

definition total_long :: "Order list \<Rightarrow> int" where
  "total_long orders =
     sum_list (map Order.quantity (filter (\<lambda>ord. Order.quantity ord > 0) orders))"

definition total_short :: "Order list \<Rightarrow> int" where
  "total_short orders =
     sum_list (map (\<lambda>ord. abs (Order.quantity ord))
                 (filter (\<lambda>ord. Order.quantity ord < 0) orders))"

text \<open>\<^verbatim>\<open>orders_by_symbol.get(product, [])\<close>.\<close>

definition get_orders :: "(Symbol \<rightharpoonup> Order list) \<Rightarrow> Product \<Rightarrow> Order list" where
  "get_orders orders_by_symbol p = (case orders_by_symbol p of None \<Rightarrow> [] | Some os \<Rightarrow> os)"

definition exceeds_limit :: "int \<Rightarrow> int \<Rightarrow> Order list \<Rightarrow> bool" where
  "exceeds_limit current_position limit orders \<longleftrightarrow>
     current_position + total_long orders > limit \<or>
     current_position - total_short orders < - limit"

text \<open>
  Lines 202 to 212. \<^verbatim>\<open>LIMITS[product]\<close> raises \<^verbatim>\<open>KeyError\<close> for a product without a limit;
  \<^verbatim>\<open>orders_by_symbol.pop(product)\<close> raises \<^verbatim>\<open>KeyError\<close> when the trader returned no entry
  for the product. The positions are not written by this loop.
\<close>

fun limit_check ::
  "int \<Rightarrow> Product list \<Rightarrow> (Symbol \<Rightarrow> int) \<Rightarrow> (Symbol \<rightharpoonup> Order list) \<Rightarrow> SubmissionLogRow list \<Rightarrow>
     py_error + ((Symbol \<rightharpoonup> Order list) \<times> SubmissionLogRow list)" where
  "limit_check ts [] pos orders_by_symbol logs = Inr (orders_by_symbol, logs)"
| "limit_check ts (p # ps) pos orders_by_symbol logs =
     (case map_of LIMITS p of
        None \<Rightarrow> Inl KeyError
      | Some limit \<Rightarrow>
          if exceeds_limit (pos p) limit (get_orders orders_by_symbol p) then
            (case orders_by_symbol p of
               None \<Rightarrow> Inl KeyError
             | Some _ \<Rightarrow>
                 limit_check ts ps pos (orders_by_symbol(p := None))
                   (logs @ [\<lparr>SubmissionLogRow.timestamp = ts,
                             data = ''Orders for product '' @ p @ '' exceeded limit of '' @
                                    str_int limit @ '' set''\<rparr>]))
          else limit_check ts ps pos orders_by_symbol logs)"

subsection \<open>Matching the accepted batches\<close>

text \<open>Line 216: the orders of one product, in the order the trader returned them.\<close>

fun match_orders :: "int \<Rightarrow> Order list \<Rightarrow> match_state \<Rightarrow> py_error + match_state" where
  "match_orders ts [] s = Inr s"
| "match_orders ts (ord # rest) s =
     (case match_order ts ord s of Inl e \<Rightarrow> Inl e | Inr s' \<Rightarrow> match_orders ts rest s')"

text \<open>Lines 215 to 252.\<close>

fun match_products ::
  "int \<Rightarrow> Product list \<Rightarrow> (Symbol \<rightharpoonup> Order list) \<Rightarrow> match_state \<Rightarrow> py_error + match_state" where
  "match_products ts [] orders_by_symbol s = Inr s"
| "match_products ts (p # ps) orders_by_symbol s =
     (case match_orders ts (get_orders orders_by_symbol p) s of
        Inl e \<Rightarrow> Inl e
      | Inr s' \<Rightarrow> match_products ts ps orders_by_symbol s')"

subsection \<open>Profit and loss, activity rows\<close>

text \<open>
  Lines 257 to 261. \<^verbatim>\<open>price.ask_prices[0]\<close> and \<^verbatim>\<open>price.bid_prices[0]\<close> raise
  \<^verbatim>\<open>IndexError\<close> on a row without that side.
\<close>

definition compute_profit_loss :: "PriceRow \<Rightarrow> int \<Rightarrow> real \<Rightarrow> py_error + real" where
  "compute_profit_loss row pos seashells =
     (if pos < 0 then
        (case ask_prices row of
           [] \<Rightarrow> Inl IndexError
         | a # _ \<Rightarrow> Inr (seashells + of_int (pos * a)))
      else if pos > 0 then
        (case bid_prices row of
           [] \<Rightarrow> Inl IndexError
         | b # _ \<Rightarrow> Inr (seashells + of_int (pos * b)))
      else Inr seashells)"

text \<open>\<^verbatim>\<open>xs[i] if len(xs) > i else ""\<close>.\<close>

definition level_cell :: "int list \<Rightarrow> nat \<Rightarrow> cell" where
  "level_cell xs i = (if length xs > i then CInt (xs ! i) else CStr [])"

text \<open>Lines 268 to 286.\<close>

definition tradable_columns :: "int \<Rightarrow> Product \<Rightarrow> PriceRow \<Rightarrow> real \<Rightarrow> cell list" where
  "tradable_columns ts p row pl =
     [CInt 0, CInt ts, CStr p,
      level_cell (bid_prices row) 0, level_cell (bid_volumes row) 0,
      level_cell (bid_prices row) 1, level_cell (bid_volumes row) 1,
      level_cell (bid_prices row) 2, level_cell (bid_volumes row) 2,
      level_cell (ask_prices row) 0, level_cell (ask_volumes row) 0,
      level_cell (ask_prices row) 1, level_cell (ask_volumes row) 1,
      level_cell (ask_prices row) 2, level_cell (ask_volumes row) 2,
      CFloat (mid_price row), CFloat pl]"

text \<open>Lines 254 to 288.\<close>

fun activity_tradable ::
  "int \<Rightarrow> (Product \<rightharpoonup> PriceRow) \<Rightarrow> match_state \<Rightarrow> Product list \<Rightarrow> ActivityLogRow list \<Rightarrow>
     py_error + ActivityLogRow list" where
  "activity_tradable ts rows s [] logs = Inr logs"
| "activity_tradable ts rows s (p # ps) logs =
     (case rows p of
        None \<Rightarrow> Inl KeyError
      | Some row \<Rightarrow>
          (case compute_profit_loss row (own_positions s p) (seashells_by_product s p) of
             Inl e \<Rightarrow> Inl e
           | Inr pl \<Rightarrow>
               activity_tradable ts rows s ps
                 (logs @ [\<lparr>columns = tradable_columns ts p row pl\<rparr>])))"

text \<open>Lines 290 to 295.\<close>

fun activity_non_tradable ::
  "int \<Rightarrow> (Product \<rightharpoonup> PriceRow) \<Rightarrow> Product list \<Rightarrow> ActivityLogRow list \<Rightarrow>
     py_error + ActivityLogRow list" where
  "activity_non_tradable ts rows [] logs = Inr logs"
| "activity_non_tradable ts rows (p # ps) logs =
     (case rows p of
        None \<Rightarrow> Inl KeyError
      | Some row \<Rightarrow>
          activity_non_tradable ts rows ps
            (logs @ [\<lparr>columns = [CInt 0, CInt ts, CStr p] @ replicate 12 (CStr []) @
                                 [CFloat (mid_price row), CFloat 0]\<rparr>]))"

subsection \<open>The loop over the timestamps\<close>

text \<open>
  Modelled from the spec: the trader is an object of a class that is loaded at run time
  and is not among the engine's sources. Following the spec's decision-algorithm contract
  it is a function from its private memory and the \<^verbatim>\<open>TradingState\<close> to the orders per
  symbol, the text it printed and its new memory. It returns; it does not write to the
  \<^verbatim>\<open>TradingState\<close>; the order objects of its lists are separate objects.
\<close>

type_synonym 'm Trader = "'m \<Rightarrow> TradingState \<Rightarrow> (Symbol \<rightharpoonup> Order list) \<times> string \<times> 'm"

text \<open>
  The variables of \<^verbatim>\<open>run_backtest\<close> that live across timestamps. \<open>calls\<close> and \<open>matched\<close> are
  not variables of the source: \<open>calls\<close> records the argument of every \<^verbatim>\<open>trader.run(state)\<close>
  and \<open>matched\<close> the value of \<open>own_trades\<close> when matching at a timestamp has ended, so that
  theorems can speak about them.
\<close>

record 'm run_state =
  vars :: match_state
  result :: DayResult
  trader :: 'm
  calls :: "TradingState list"
  matched :: "(Symbol \<rightharpoonup> int Trade list) list"

text \<open>
  Lines 190 to 194: the \<^verbatim>\<open>TradingState\<close> of a timestamp, from the books and observations
  of the timestamp and the session variables \<open>v\<close>. \<^verbatim>\<open>dict(own_trades)\<close> copies the
  dictionary that matching filled at the previous timestamp; the position dictionary
  leaves out the products whose position is 0.
\<close>

definition trading_state ::
  "DayData \<Rightarrow> Product list \<Rightarrow> int \<Rightarrow> match_state \<Rightarrow> (Symbol \<rightharpoonup> OrderDepth) \<Rightarrow>
     (Product \<rightharpoonup> int) \<Rightarrow> TradingState" where
  "trading_state dat tp ts v ods obs =
     \<lparr>TradingState.timestamp = ts,
      listings = listings_of tp,
      order_depths = ods,
      own_trades = match_state.own_trades v,
      market_trades = trades_by_timestamp (trades dat) ts,
      position = (\<lambda>p. if own_positions v p \<noteq> 0 then Some (own_positions v p) else None),
      observations = obs\<rparr>"

text \<open>
  Lines 179 to 295: the body of the loop over the timestamps. \<^verbatim>\<open>own_trades\<close> is replaced
  by an empty \<^verbatim>\<open>defaultdict\<close> (line 214) after the limit check and before matching.
\<close>

definition timestamp_body ::
  "'m Trader \<Rightarrow> DayData \<Rightarrow> Product list \<Rightarrow> Product list \<Rightarrow> int \<Rightarrow> 'm run_state \<Rightarrow>
     py_error + 'm run_state" where
  "timestamp_body run dat tp ntp ts rs =
     (let rows = prices_by_timestamp (prices dat) ts in
      case build_order_depths rows tp Map.empty of
        Inl e \<Rightarrow> Inl e
      | Inr ods \<Rightarrow>
      (case build_observations rows ntp Map.empty of
        Inl e \<Rightarrow> Inl e
      | Inr obs \<Rightarrow>
      (let state = trading_state dat tp ts (vars rs) ods obs;
           (orders_by_symbol, stdout, trader') = run (trader rs) state;
           sandbox = sandbox_logs (result rs) @ [\<lparr>SandboxLogRow.timestamp = ts, data = stdout\<rparr>]
       in case limit_check ts tp (own_positions (vars rs)) orders_by_symbol
                 (submission_logs (result rs)) of
            Inl e \<Rightarrow> Inl e
          | Inr (accepted, submission) \<Rightarrow>
          (case match_products ts tp accepted
                  ((vars rs)\<lparr>match_state.order_depths := ods,
                             match_state.own_trades := Map.empty\<rparr>) of
            Inl e \<Rightarrow> Inl e
          | Inr s \<Rightarrow>
          (case activity_tradable ts rows s tp (activity_logs (result rs)) of
            Inl e \<Rightarrow> Inl e
          | Inr activity1 \<Rightarrow>
          (case activity_non_tradable ts rows ntp activity1 of
            Inl e \<Rightarrow> Inl e
          | Inr activity2 \<Rightarrow>
              Inr (rs\<lparr>vars := s,
                      result := (result rs)\<lparr>sandbox_logs := sandbox,
                                            submission_logs := submission,
                                            activity_logs := activity2\<rparr>,
                      trader := trader',
                      calls := calls rs @ [state],
                      matched := matched rs @ [match_state.own_trades s]\<rparr>)))))))"

fun run_loop ::
  "'m Trader \<Rightarrow> DayData \<Rightarrow> Product list \<Rightarrow> Product list \<Rightarrow> int list \<Rightarrow> 'm run_state \<Rightarrow>
     py_error + 'm run_state" where
  "run_loop run dat tp ntp [] rs = Inr rs"
| "run_loop run dat tp ntp (ts # rest) rs =
     (case timestamp_body run dat tp ntp ts rs of
        Inl e \<Rightarrow> Inl e
      | Inr rs' \<Rightarrow> run_loop run dat tp ntp rest rs')"

text \<open>Lines 154 and 173 to 176: the variables before the first timestamp.\<close>

definition initial_state :: "'m \<Rightarrow> int \<Rightarrow> int \<Rightarrow> 'm run_state" where
  "initial_state m rnd d =
     \<lparr>vars = \<lparr>match_state.order_depths = Map.empty, own_trades = Map.empty,
              own_positions = (\<lambda>_. 0), seashells_by_product = (\<lambda>_. 0)\<rparr>,
      result = \<lparr>round' = rnd, day = d, sandbox_logs = [], submission_logs = [],
                activity_logs = []\<rparr>,
      trader = m, calls = [], matched = []\<rparr>"

text \<open>
  \<^verbatim>\<open>run_backtest\<close> with the day's data as an argument (reading the files is outside the
  engine). \<^verbatim>\<open>result.activity_logs[-1]\<close> on line 297 raises \<^verbatim>\<open>IndexError\<close> when no row was
  written; the profit summary that lines 299 to 312 print is not modelled.
\<close>

definition run_session ::
  "'m Trader \<Rightarrow> 'm \<Rightarrow> DayData \<Rightarrow> int \<Rightarrow> int \<Rightarrow> Product list \<Rightarrow> Product list \<Rightarrow>
     py_error + 'm run_state" where
  "run_session run m dat rnd d tp ntp =
     (case run_loop run dat tp ntp (timestamps (prices dat)) (initial_state m rnd d) of
        Inl e \<Rightarrow> Inl e
      | Inr rs \<Rightarrow> if activity_logs (result rs) = [] then Inl IndexError else Inr rs)"

definition run_backtest ::
  "'m Trader \<Rightarrow> 'm \<Rightarrow> DayData \<Rightarrow> int \<Rightarrow> int \<Rightarrow> Product list \<Rightarrow> Product list \<Rightarrow>
     py_error + DayResult" where
  "run_backtest run m dat rnd d tp ntp =
     (case run_session run m dat rnd d tp ntp of Inl e \<Rightarrow> Inl e | Inr rs \<Rightarrow> Inr (result rs))"

section \<open>The result merger\<close>

text \<open>
  \<^verbatim>\<open>str.replace(old, new)\<close>: every occurrence of \<open>old\<close> is replaced, scanning from the left
  and continuing after each replaced occurrence; an empty \<open>old\<close> matches before every
  character and at the end. The patterns of the merger are ASCII, so replacing in the
  UTF-8 bytes of a text is replacing in the text.
\<close>

function py_replace :: "string \<Rightarrow> string \<Rightarrow> string \<Rightarrow> string" where
  "py_replace old new s =
     (if old = [] then new @ concat (map (\<lambda>c. c # new) s)
      else if s = [] then []
      else if take (length old) s = old then new @ py_replace old new (drop (length old) s)
      else hd s # py_replace old new (tl s))"
  by pat_completeness auto
termination
  by (relation "measure (\<lambda>(old, new, s). length s)") (auto simp: Suc_le_eq)

declare py_replace.simps [simp del]

text \<open>Lines 51 to 58.\<close>

definition SandboxLogRow_with_offset :: "SandboxLogRow \<Rightarrow> int \<Rightarrow> SandboxLogRow" where
  \<open>SandboxLogRow_with_offset self timestamp_offset =
     (let new_timestamp = SandboxLogRow.timestamp self + timestamp_offset;
          new_data =
            fold (\<lambda>(current, replacement) d. py_replace current replacement d)
              [(''"timestamp":'' @ str_int (SandboxLogRow.timestamp self),
                ''"timestamp":'' @ str_int new_timestamp),
               (''"t":'' @ str_int (SandboxLogRow.timestamp self),
                ''"t":'' @ str_int new_timestamp)]
              (SandboxLogRow.data self)
      in \<lparr>SandboxLogRow.timestamp = new_timestamp, data = new_data\<rparr>)\<close>

text \<open>Lines 68 and 69.\<close>

definition SubmissionLogRow_with_offset :: "SubmissionLogRow \<Rightarrow> int \<Rightarrow> SubmissionLogRow" where
  "SubmissionLogRow_with_offset self new_timestamp =
     \<lparr>SubmissionLogRow.timestamp = new_timestamp, data = SubmissionLogRow.data self\<rparr>"

text \<open>
  \<^verbatim>\<open>x + y\<close> on column values: numbers add (an \<^verbatim>\<open>int\<close> and a \<^verbatim>\<open>float\<close> give a \<^verbatim>\<open>float\<close>),
  strings concatenate, a string and a number raise \<^verbatim>\<open>TypeError\<close>.
\<close>

fun cell_add :: "cell \<Rightarrow> cell \<Rightarrow> py_error + cell" where
  "cell_add (CInt a) (CInt b) = Inr (CInt (a + b))"
| "cell_add (CInt a) (CFloat b) = Inr (CFloat (of_int a + b))"
| "cell_add (CFloat a) (CInt b) = Inr (CFloat (a + of_int b))"
| "cell_add (CFloat a) (CFloat b) = Inr (CFloat (a + b))"
| "cell_add (CStr a) (CStr b) = Inr (CStr (a @ b))"
| "cell_add _ _ = Inl TypeError"

text \<open>\<^verbatim>\<open>x != n\<close> for a column value \<open>x\<close> and an \<^verbatim>\<open>int\<close> \<open>n\<close>.\<close>

fun cell_ne_int :: "cell \<Rightarrow> int \<Rightarrow> bool" where
  "cell_ne_int (CInt a) n = (a \<noteq> n)"
| "cell_ne_int (CFloat a) n = (a \<noteq> of_int n)"
| "cell_ne_int (CStr a) n = True"

text \<open>
  As keys of a \<^verbatim>\<open>dict\<close>, an \<^verbatim>\<open>int\<close> and the \<^verbatim>\<open>float\<close> of the same value are one key.
\<close>

fun dict_key :: "cell \<Rightarrow> cell" where
  "dict_key (CInt a) = CFloat (of_int a)"
| "dict_key c = c"

text \<open>
  Lines 82 to 87. \<^verbatim>\<open>new_columns[1]\<close> raises \<^verbatim>\<open>IndexError\<close> on fewer than two columns;
  with two columns or more \<^verbatim>\<open>new_columns[-1]\<close> is the last one.
\<close>

definition ActivityLogRow_with_offset ::
  "ActivityLogRow \<Rightarrow> int \<Rightarrow> cell \<Rightarrow> py_error + ActivityLogRow" where
  "ActivityLogRow_with_offset self timestamp_offset profit_loss_offset =
     (let new_columns = columns self in
      if length new_columns < 2 then Inl IndexError
      else
        (case cell_add (new_columns ! 1) (CInt timestamp_offset) of
           Inl e \<Rightarrow> Inl e
         | Inr c1 \<Rightarrow>
             (let new_columns1 = new_columns[1 := c1] in
              case cell_add (last new_columns1) profit_loss_offset of
                Inl e \<Rightarrow> Inl e
              | Inr c2 \<Rightarrow>
                  Inr \<lparr>columns = new_columns1[length new_columns1 - 1 := c2]\<rparr>)))"

text \<open>
  Lines 324 to 329, over \<^verbatim>\<open>reversed(a.activity_logs)\<close>. \<open>offsets\<close> is the
  \<^verbatim>\<open>defaultdict(float)\<close>, a function on keys whose value is \<open>CFloat 0\<close> until a key is
  written. \<open>Inr\<close> is returned at the \<^verbatim>\<open>break\<close> and at the end of the rows.
\<close>

fun profit_loss_offsets ::
  "ActivityLogRow list \<Rightarrow> int \<Rightarrow> bool \<Rightarrow> (cell \<Rightarrow> cell) \<Rightarrow> py_error + (cell \<Rightarrow> cell)" where
  "profit_loss_offsets [] a_last_timestamp merge_profit_loss offsets = Inr offsets"
| "profit_loss_offsets (row # rest) a_last_timestamp merge_profit_loss offsets =
     (if length (columns row) < 2 then Inl IndexError
      else if cell_ne_int (columns row ! 1) a_last_timestamp then Inr offsets
      else if length (columns row) < 3 then Inl IndexError
      else profit_loss_offsets rest a_last_timestamp merge_profit_loss
             (offsets(dict_key (columns row ! 2) :=
                        (if merge_profit_loss then last (columns row) else CInt 0))))"

text \<open>Line 333: the list comprehension over \<^verbatim>\<open>b.activity_logs\<close>.\<close>

fun offset_activity_logs ::
  "int \<Rightarrow> (cell \<Rightarrow> cell) \<Rightarrow> ActivityLogRow list \<Rightarrow> py_error + ActivityLogRow list" where
  "offset_activity_logs timestamp_offset offsets [] = Inr []"
| "offset_activity_logs timestamp_offset offsets (row # rest) =
     (if length (columns row) < 3 then Inl IndexError
      else
        (case ActivityLogRow_with_offset row timestamp_offset
                (offsets (dict_key (columns row ! 2))) of
           Inl e \<Rightarrow> Inl e
         | Inr row' \<Rightarrow>
             (case offset_activity_logs timestamp_offset offsets rest of
                Inl e \<Rightarrow> Inl e
              | Inr rows' \<Rightarrow> Inr (row' # rows'))))"

text \<open>
  Lines 315 to 335. \<^verbatim>\<open>a.sandbox_logs[-1]\<close> raises \<^verbatim>\<open>IndexError\<close> when \<open>a\<close> has no sandbox
  row.
\<close>

definition merge_results :: "DayResult \<Rightarrow> DayResult \<Rightarrow> bool \<Rightarrow> py_error + DayResult" where
  "merge_results a b merge_profit_loss =
     (if sandbox_logs a = [] then Inl IndexError
      else
        (let a_last_timestamp = SandboxLogRow.timestamp (last (sandbox_logs a));
             timestamp_offset = a_last_timestamp + 100
         in case profit_loss_offsets (rev (activity_logs a)) a_last_timestamp merge_profit_loss
                   (\<lambda>_. CFloat 0) of
              Inl e \<Rightarrow> Inl e
            | Inr offsets \<Rightarrow>
                (case offset_activity_logs timestamp_offset offsets (activity_logs b) of
                   Inl e \<Rightarrow> Inl e
                 | Inr activity \<Rightarrow>
                     Inr \<lparr>round' = round' a, day = DayResult.day a,
                          sandbox_logs = sandbox_logs a @
                            map (\<lambda>row. SandboxLogRow_with_offset row timestamp_offset)
                              (sandbox_logs b),
                          submission_logs = submission_logs a @
                            map (\<lambda>row. SubmissionLogRow_with_offset row timestamp_offset)
                              (submission_logs b),
                          activity_logs = activity_logs a @ activity\<rparr>)))"

section \<open>Auxiliary definitions for the theorems\<close>

text \<open>
  The definitions of this section are not translations of source code. They state, in
  the words of the specification, what the theorems compare the code with, and they name
  the concrete inputs of the witnesses and counterexamples.
\<close>

subsection \<open>Matching, as the specification words it\<close>

text \<open>
  The fills of an order against a list of levels \<open>(price, resting volume)\<close>, taken in the
  order of the list: at each level the fill is the minimum of the remaining quantity and
  the resting volume; the walk stops when the remaining quantity is zero or the levels
  are exhausted. A fill is a pair \<open>(price, volume)\<close>.
\<close>

fun spec_fills :: "int \<Rightarrow> (int \<times> int) list \<Rightarrow> (int \<times> int) list" where
  "spec_fills remaining [] = []"
| "spec_fills remaining ((p, resting) # levels) =
     (let fill = min remaining resting
      in (p, fill) # (if remaining - fill = 0 then [] else spec_fills (remaining - fill) levels))"

definition fill_volume :: "(int \<times> int) list \<Rightarrow> int" where
  "fill_volume fills = sum_list (map snd fills)"

definition fill_value :: "(int \<times> int) list \<Rightarrow> int" where
  "fill_value fills = sum_list (map (\<lambda>(p, f). p * f) fills)"

text \<open>The trade records that lines 224 and 241 build for a fill.\<close>

definition buy_trade :: "Symbol \<Rightarrow> int \<Rightarrow> int \<times> int \<Rightarrow> int Trade" where
  "buy_trade sy ts = (\<lambda>(p, f). \<lparr>Trade.symbol = sy, price = p, quantity = f,
      buyer = ''SUBMISSION'', seller = [], timestamp = ts\<rparr>)"

definition sell_trade :: "Symbol \<Rightarrow> int \<Rightarrow> int \<times> int \<Rightarrow> int Trade" where
  "sell_trade sy ts = (\<lambda>(p, f). \<lparr>Trade.symbol = sy, price = p, quantity = f,
      buyer = [], seller = ''SUBMISSION'', timestamp = ts\<rparr>)"

text \<open>
  The resting volume of a level: the book stores an ask level as minus its volume and a
  bid level as its volume; a price that is not a level has no resting volume.
\<close>

definition resting_ask :: "OrderDepth \<Rightarrow> int \<Rightarrow> int" where
  "resting_ask od p = (case map_of (sell_orders od) p of Some v \<Rightarrow> abs v | None \<Rightarrow> 0)"

definition resting_bid :: "OrderDepth \<Rightarrow> int \<Rightarrow> int" where
  "resting_bid od p = (case map_of (buy_orders od) p of Some v \<Rightarrow> v | None \<Rightarrow> 0)"

text \<open>The own trades of a symbol; none when the \<^verbatim>\<open>defaultdict\<close> has no entry for it.\<close>

definition trades_of :: "match_state \<Rightarrow> Symbol \<Rightarrow> int Trade list" where
  "trades_of s sy = (case own_trades s sy of None \<Rightarrow> [] | Some ts \<Rightarrow> ts)"

text \<open>
  One side of a book after a list of fills: the stored value of each filled level moves
  by its fill (\<open>move\<close> is \<open>(+)\<close> for asks and \<open>(-)\<close> for bids) and a level whose value
  reaches zero is removed.
\<close>

definition deplete ::
  "(int \<Rightarrow> int \<Rightarrow> int) \<Rightarrow> (int \<times> int) list \<Rightarrow> (int \<times> int) list \<Rightarrow> (int \<times> int) list" where
  "deplete move fills side =
     fold (\<lambda>(p, f) d. case map_of d p of None \<Rightarrow> d
            | Some v \<Rightarrow> if move v f = 0 then AList.delete p d else AList.update p (move v f) d)
       fills side"

text \<open>
  The levels an order can match, in the order of matching: for a buy order the ask
  prices up to its limit price, ascending; for a sell order the bid prices from its limit
  price, descending. These are the lists \<open>price_matches\<close> of lines 220 and 237.
\<close>

definition matchable_asks :: "OrderDepth \<Rightarrow> int \<Rightarrow> int list" where
  "matchable_asks od limit = sort (filter (\<lambda>p. p \<le> limit) (map fst (sell_orders od)))"

definition matchable_bids :: "OrderDepth \<Rightarrow> int \<Rightarrow> int list" where
  "matchable_bids od limit = rev (sort (filter (\<lambda>p. p \<ge> limit) (map fst (buy_orders od))))"

definition buy_fills :: "Order \<Rightarrow> OrderDepth \<Rightarrow> (int \<times> int) list" where
  "buy_fills ord od =
     spec_fills (Order.quantity ord)
       (map (\<lambda>p. (p, resting_ask od p)) (matchable_asks od (Order.price ord)))"

definition sell_fills :: "Order \<Rightarrow> OrderDepth \<Rightarrow> (int \<times> int) list" where
  "sell_fills ord od =
     spec_fills (- Order.quantity ord)
       (map (\<lambda>p. (p, resting_bid od p)) (matchable_bids od (Order.price ord)))"

subsection \<open>A book of three levels a side, and two orders\<close>

definition pearls_row :: PriceRow where
  "pearls_row =
     \<lparr>PriceRow.day = 0, timestamp = 0, product = ''PEARLS'', bid_prices = [10, 9, 8],
      bid_volumes = [5, 4, 3], ask_prices = [12, 13, 14], ask_volumes = [5, 4, 3],
      mid_price = 11, profit_loss = 0\<rparr>"

definition pearls_book :: match_state where
  "pearls_book =
     \<lparr>match_state.order_depths = [''PEARLS'' \<mapsto> order_depth_of_row pearls_row],
      own_trades = Map.empty, own_positions = (\<lambda>_. 0), seashells_by_product = (\<lambda>_. 0)\<rparr>"

definition buy_7_at_13 :: Order where
  "buy_7_at_13 = \<lparr>Order.symbol = ''PEARLS'', price = 13, quantity = 7\<rparr>"

definition sell_7_at_9 :: Order where
  "sell_7_at_9 = \<lparr>Order.symbol = ''PEARLS'', price = 9, quantity = -7\<rparr>"

section \<open>Auxiliary definitions for the theorems\<close>

subsection \<open>Merged results\<close>

text \<open>\<^verbatim>\<open>row.timestamp == t\<close> for an activity row that has a column 1.\<close>

definition at_timestamp :: "ActivityLogRow \<Rightarrow> int \<Rightarrow> bool" where
  "at_timestamp row t \<longleftrightarrow> length (columns row) \<ge> 2 \<and> \<not> cell_ne_int (columns row ! 1) t"

text \<open>The number a column value denotes; a string denotes none.\<close>

fun cell_value :: "cell \<Rightarrow> real option" where
  "cell_value (CInt a) = Some (of_int a)"
| "cell_value (CFloat x) = Some x"
| "cell_value (CStr s) = None"

text \<open>Line 329, the assignment to \<open>profit_loss_offsets\<close> for one row.\<close>

definition set_offset :: "bool \<Rightarrow> ActivityLogRow \<Rightarrow> (cell \<Rightarrow> cell) \<Rightarrow> (cell \<Rightarrow> cell)" where
  "set_offset mpl row offsets =
     offsets(dict_key (columns row ! 2) := (if mpl then last (columns row) else CInt 0))"

text \<open>
  Two session results with one PEARLS activity row each; the second has a rejection row.
\<close>

definition day_a :: DayResult where
  "day_a =
     \<lparr>round' = 1, day = 0,
      sandbox_logs = [\<lparr>SandboxLogRow.timestamp = 200, data = []\<rparr>],
      submission_logs = [],
      activity_logs =
        [\<lparr>columns = [CInt 0, CInt 200, CStr ''PEARLS'', CStr [], CStr [], CStr [], CStr [], CStr [], CStr [], CStr [], CStr [], CStr [], CStr [], CStr [], CStr [], CFloat 10000, CFloat 7]\<rparr>]\<rparr>"

definition day_b :: DayResult where
  \<open>day_b =
     \<lparr>round' = 1, day = 1,
      sandbox_logs = [\<lparr>SandboxLogRow.timestamp = 100, data = ''{"timestamp":100}''\<rparr>],
      submission_logs =
        [\<lparr>SubmissionLogRow.timestamp = 100,
          data = ''Orders for product PEARLS exceeded limit of 20 set''\<rparr>],
      activity_logs =
        [\<lparr>columns = [CInt 0, CInt 100, CStr ''PEARLS'', CStr [], CStr [], CStr [], CStr [], CStr [], CStr [], CStr [], CStr [], CStr [], CStr [], CStr [], CStr [], CFloat 10000, CFloat 5]\<rparr>]\<rparr>\<close>

definition merged_row :: "bool \<Rightarrow> ActivityLogRow" where
  "merged_row mpl =
     \<lparr>columns = [CInt 0, CInt 400, CStr ''PEARLS'', CStr [], CStr [], CStr [], CStr [], CStr [], CStr [], CStr [], CStr [], CStr [], CStr [], CStr [], CStr [], CFloat 10000,
                 CFloat (if mpl then 12 else 5)]\<rparr>"

subsection \<open>Price rows for the classification\<close>

definition dip_asks_only :: PriceRow where
  "dip_asks_only =
     \<lparr>PriceRow.day = 0, timestamp = 0, product = ''DIP'', bid_prices = [], bid_volumes = [],
      ask_prices = [12], ask_volumes = [5], mid_price = 12.5, profit_loss = 0\<rparr>"

definition berries_quoted :: PriceRow where
  "berries_quoted =
     \<lparr>PriceRow.day = 0, timestamp = 0, product = ''BERRIES'', bid_prices = [10],
      bid_volumes = [5], ask_prices = [12], ask_volumes = [5], mid_price = 11,
      profit_loss = 0\<rparr>"

definition berries_unquoted :: PriceRow where
  "berries_unquoted =
     \<lparr>PriceRow.day = 0, timestamp = 100, product = ''BERRIES'', bid_prices = [],
      bid_volumes = [], ask_prices = [], ask_volumes = [], mid_price = 11, profit_loss = 0\<rparr>"

section \<open>Classification of the products\<close>

lemma build_observations_lookup:
  "build_observations rows ps obs = Inr obs' \<Longrightarrow>
   (\<forall>p. obs' p =
      (if p \<in> set ps then map_option (\<lambda>row. py_int (mid_price row)) (rows p) else obs p))
   \<and> (\<forall>p \<in> set ps. rows p \<noteq> None)"
proof (induction ps arbitrary: obs)
  case Nil
  then show ?case by simp
next
  case (Cons q ps)
  then obtain row where row: "rows q = Some row"
    by (auto split: option.splits)
  with Cons.prems have "build_observations rows ps (obs(q \<mapsto> py_int (mid_price row))) = Inr obs'"
    by simp
  from Cons.IH [OF this] row show ?case
    by auto
qed

text \<open>
  Claim C8, as stated, fails on the code. The two sets are computed from
  \<^verbatim>\<open>len(row.bid_prices)\<close> alone, row by row. A product whose only row has an ask level and
  no bid level has a quoted level, yet it is not in \<open>tradable_products\<close> and it is in
  \<open>non_tradable_products\<close>; a product with a bid at one timestamp and none at another is
  in both sets, so the two sets do not partition the products.
\<close>

theorem classification_counterexample:
  "length (ask_prices dip_asks_only) = 1
   \<and> ''DIP'' \<notin> tradable_products [dip_asks_only, berries_quoted, berries_unquoted]
   \<and> ''DIP'' \<in> non_tradable_products [dip_asks_only, berries_quoted, berries_unquoted]
   \<and> ''BERRIES'' \<in> tradable_products [dip_asks_only, berries_quoted, berries_unquoted]
   \<and> ''BERRIES'' \<in> non_tradable_products [dip_asks_only, berries_quoted, berries_unquoted]"
  by (simp add: dip_asks_only_def berries_quoted_def berries_unquoted_def
        tradable_products_def non_tradable_products_def)

text \<open>
  Claim C8, amended: a product is tradable if and only if one of its price rows has at
  least one bid level, and non-tradable if and only if one of its price rows has no bid
  level; ask levels are not consulted. Every product of the price data is in at least
  one of the two sets, and the sets are disjoint when the rows of each product agree on
  having a bid level. A non-tradable product is exposed to the trader as the integer
  part of the mid price of its row at the timestamp.
\<close>

theorem classification_by_bid_levels:
  "(p \<in> tradable_products rows \<longleftrightarrow>
      (\<exists>row \<in> set rows. product row = p \<and> bid_prices row \<noteq> []))
   \<and> (p \<in> non_tradable_products rows \<longleftrightarrow>
      (\<exists>row \<in> set rows. product row = p \<and> bid_prices row = []))
   \<and> tradable_products rows \<union> non_tradable_products rows = product ` set rows
   \<and> ((\<forall>r \<in> set rows. \<forall>r' \<in> set rows.
          product r = product r' \<longrightarrow> (bid_prices r = [] \<longleftrightarrow> bid_prices r' = []))
        \<longrightarrow> tradable_products rows \<inter> non_tradable_products rows = {})
   \<and> (\<forall>obs. build_observations (prices_by_timestamp rows ts) ntp Map.empty = Inr obs \<longrightarrow>
        (\<forall>q \<in> set ntp. \<exists>row. prices_by_timestamp rows ts q = Some row
                              \<and> obs q = Some (py_int (mid_price row))))"
proof (intro conjI)
  show "p \<in> tradable_products rows \<longleftrightarrow>
          (\<exists>row \<in> set rows. product row = p \<and> bid_prices row \<noteq> [])"
    by (auto simp: tradable_products_def)
  show "p \<in> non_tradable_products rows \<longleftrightarrow>
          (\<exists>row \<in> set rows. product row = p \<and> bid_prices row = [])"
    by (auto simp: non_tradable_products_def)
  show "tradable_products rows \<union> non_tradable_products rows = product ` set rows"
    by (auto simp: tradable_products_def non_tradable_products_def)
  show "(\<forall>r \<in> set rows. \<forall>r' \<in> set rows.
           product r = product r' \<longrightarrow> (bid_prices r = [] \<longleftrightarrow> bid_prices r' = []))
        \<longrightarrow> tradable_products rows \<inter> non_tradable_products rows = {}"
  proof
    assume c: "\<forall>r \<in> set rows. \<forall>r' \<in> set rows.
                 product r = product r' \<longrightarrow> (bid_prices r = [] \<longleftrightarrow> bid_prices r' = [])"
    have "q \<notin> non_tradable_products rows" if "q \<in> tradable_products rows" for q
    proof
      assume "q \<in> non_tradable_products rows"
      then obtain r' where r': "r' \<in> set rows" "product r' = q" "bid_prices r' = []"
        unfolding non_tradable_products_def by force
      from that obtain r where r: "r \<in> set rows" "product r = q" "bid_prices r \<noteq> []"
        unfolding tradable_products_def by force
      from c r r' show False by metis
    qed
    then show "tradable_products rows \<inter> non_tradable_products rows = {}"
      by blast
  qed
  show "\<forall>obs. build_observations (prices_by_timestamp rows ts) ntp Map.empty = Inr obs \<longrightarrow>
        (\<forall>q \<in> set ntp. \<exists>row. prices_by_timestamp rows ts q = Some row
                              \<and> obs q = Some (py_int (mid_price row)))"
  proof (intro allI impI ballI)
    fix obs q
    assume b: "build_observations (prices_by_timestamp rows ts) ntp Map.empty = Inr obs"
      and q: "q \<in> set ntp"
    from build_observations_lookup [OF b] q
    have "obs q = map_option (\<lambda>row. py_int (mid_price row)) (prices_by_timestamp rows ts q)"
      and "prices_by_timestamp rows ts q \<noteq> None"
      by auto
    then show "\<exists>row. prices_by_timestamp rows ts q = Some row
                    \<and> obs q = Some (py_int (mid_price row))"
      by auto
  qed
qed

text \<open>
  Witness for C8 as amended: one quoted product and one product with asks only, at one
  timestamp. The rows of each product agree, the two sets are disjoint, and the
  observation of the non-tradable product is the integer part of its mid price 12.5.
\<close>

theorem classification_by_bid_levels_witness:
  "''BERRIES'' \<in> tradable_products [dip_asks_only, berries_quoted]
   \<and> ''DIP'' \<in> non_tradable_products [dip_asks_only, berries_quoted]
   \<and> tradable_products [dip_asks_only, berries_quoted]
       \<inter> non_tradable_products [dip_asks_only, berries_quoted] = {}
   \<and> (\<exists>obs. build_observations (prices_by_timestamp [dip_asks_only, berries_quoted] 0)
               [''DIP''] Map.empty = Inr obs \<and> obs ''DIP'' = Some 12)"
proof -
  have rows: "\<exists>row \<in> set [dip_asks_only, berries_quoted].
                product row = ''BERRIES'' \<and> bid_prices row \<noteq> []"
    by (simp add: dip_asks_only_def berries_quoted_def)
  have rows': "\<exists>row \<in> set [dip_asks_only, berries_quoted].
                product row = ''DIP'' \<and> bid_prices row = []"
    by (simp add: dip_asks_only_def berries_quoted_def)
  have agree: "\<forall>r \<in> set [dip_asks_only, berries_quoted].
                 \<forall>r' \<in> set [dip_asks_only, berries_quoted].
                   product r = product r' \<longrightarrow> (bid_prices r = [] \<longleftrightarrow> bid_prices r' = [])"
    by (simp add: dip_asks_only_def berries_quoted_def)
  have lookup: "prices_by_timestamp [dip_asks_only, berries_quoted] 0 ''DIP'' = Some dip_asks_only"
    by (simp add: prices_by_timestamp_def dip_asks_only_def berries_quoted_def)
  have obs: "build_observations (prices_by_timestamp [dip_asks_only, berries_quoted] 0)
               [''DIP''] Map.empty
             = Inr [''DIP'' \<mapsto> py_int (mid_price dip_asks_only)]"
    by (simp add: lookup)
  have int_part: "py_int (mid_price dip_asks_only) = 12"
    by (simp add: py_int_def dip_asks_only_def)
  note c = classification_by_bid_levels
             [of "''BERRIES''" "[dip_asks_only, berries_quoted]" 0 "[''DIP'']"]
  note c' = classification_by_bid_levels
             [of "''DIP''" "[dip_asks_only, berries_quoted]" 0 "[''DIP'']"]
  from c rows have 1: "''BERRIES'' \<in> tradable_products [dip_asks_only, berries_quoted]"
    by blast
  from c' rows' have 2: "''DIP'' \<in> non_tradable_products [dip_asks_only, berries_quoted]"
    by blast
  from c agree have 3: "tradable_products [dip_asks_only, berries_quoted]
       \<inter> non_tradable_products [dip_asks_only, berries_quoted] = {}"
    by blast
  from obs int_part have 4: "\<exists>obs. build_observations
         (prices_by_timestamp [dip_asks_only, berries_quoted] 0) [''DIP''] Map.empty = Inr obs
         \<and> obs ''DIP'' = Some 12"
    by simp
  from 1 2 3 4 show ?thesis by blast
qed

section \<open>The result merger: proofs\<close>

lemma with_offset_Inr:
  assumes "ActivityLogRow_with_offset row off pl = Inr row'"
  shows "length (columns row) \<ge> 2"
    and "length (columns row') = length (columns row)"
    and "i < length (columns row) \<Longrightarrow> i \<noteq> 1 \<Longrightarrow> i \<noteq> length (columns row) - 1 \<Longrightarrow>
         columns row' ! i = columns row ! i"
    and "length (columns row) \<ge> 3 \<Longrightarrow> cell_add (columns row ! 1) (CInt off) = Inr (columns row' ! 1)"
    and "length (columns row) \<ge> 3 \<Longrightarrow> cell_add (last (columns row)) pl = Inr (last (columns row'))"
proof -
  from assms show len: "length (columns row) \<ge> 2"
    by (auto simp: ActivityLogRow_with_offset_def Let_def split: if_splits)
  from assms len obtain c1 c2 where
    c1: "cell_add (columns row ! 1) (CInt off) = Inr c1" and
    c2: "cell_add (last ((columns row)[1 := c1])) pl = Inr c2" and
    row': "columns row' = (columns row)[1 := c1, length (columns row) - 1 := c2]"
    by (auto simp: ActivityLogRow_with_offset_def Let_def split: if_splits sum.splits)
  from row' show "length (columns row') = length (columns row)"
    by simp
  show "columns row' ! i = columns row ! i"
    if "i < length (columns row)" "i \<noteq> 1" "i \<noteq> length (columns row) - 1"
    using that row' by simp
  show "cell_add (columns row ! 1) (CInt off) = Inr (columns row' ! 1)"
    if "length (columns row) \<ge> 3"
    using that row' c1 by simp
  show "cell_add (last (columns row)) pl = Inr (last (columns row'))"
    if "length (columns row) \<ge> 3"
  proof -
    from that have ne: "columns row \<noteq> []" by auto
    from that have "last ((columns row)[1 := c1]) = last (columns row)"
      by (simp add: last_conv_nth ne)
    moreover from that have "last (columns row') = c2"
      by (simp add: row' last_conv_nth ne)
    ultimately show ?thesis using c2 by simp
  qed
qed

lemma offset_activity_logs_Inr:
  "offset_activity_logs off offs rows = Inr rows' \<Longrightarrow>
   list_all2 (\<lambda>row row'. length (columns row) \<ge> 3 \<and>
       ActivityLogRow_with_offset row off (offs (dict_key (columns row ! 2))) = Inr row') rows rows'"
proof (induction rows arbitrary: rows')
  case Nil
  then show ?case by simp
next
  case (Cons row rows)
  from Cons.prems obtain row1 rows1 where
    "length (columns row) \<ge> 3"
    "ActivityLogRow_with_offset row off (offs (dict_key (columns row ! 2))) = Inr row1"
    "offset_activity_logs off offs rows = Inr rows1" "rows' = row1 # rows1"
    by (auto split: if_splits sum.splits)
  with Cons.IH show ?case by simp
qed

lemma merge_results_Inr:
  assumes "merge_results a b mpl = Inr r"
  shows "sandbox_logs a \<noteq> []"
    and "\<exists>offsets activity.
          profit_loss_offsets (rev (activity_logs a))
            (SandboxLogRow.timestamp (last (sandbox_logs a))) mpl (\<lambda>_. CFloat 0) = Inr offsets
          \<and> offset_activity_logs (SandboxLogRow.timestamp (last (sandbox_logs a)) + 100) offsets
               (activity_logs b) = Inr activity
          \<and> activity_logs r = activity_logs a @ activity"
    and "sandbox_logs r = sandbox_logs a @
           map (\<lambda>row. SandboxLogRow_with_offset row
                  (SandboxLogRow.timestamp (last (sandbox_logs a)) + 100)) (sandbox_logs b)"
    and "submission_logs r = submission_logs a @
           map (\<lambda>row. SubmissionLogRow_with_offset row
                  (SandboxLogRow.timestamp (last (sandbox_logs a)) + 100)) (submission_logs b)"
  using assms
  by (auto simp: merge_results_def Let_def split: if_splits sum.splits)


lemma profit_loss_offsets_block:
  assumes "\<forall>row \<in> set fin. at_timestamp row t"
    and "rest = [] \<or> \<not> at_timestamp (hd rest) t"
    and "profit_loss_offsets (fin @ rest) t mpl offs = Inr offs'"
  shows "offs' = fold (set_offset mpl) fin offs \<and> (\<forall>row \<in> set fin. length (columns row) \<ge> 3)"
  using assms
proof (induction fin arbitrary: offs)
  case Nil
  show ?case
  proof (cases rest)
    case Nil
    with Nil.prems show ?thesis by simp
  next
    case (Cons row rest')
    with Nil.prems have "\<not> at_timestamp row t" by simp
    with Nil.prems Cons show ?thesis
      by (auto simp: at_timestamp_def split: if_splits)
  qed
next
  case (Cons row fin)
  from Cons.prems(1) have at: "at_timestamp row t" by simp
  with Cons.prems(3) have len: "length (columns row) \<ge> 3"
    and rec: "profit_loss_offsets (fin @ rest) t mpl (set_offset mpl row offs) = Inr offs'"
    by (auto simp: at_timestamp_def set_offset_def split: if_splits)
  from Cons.prems(1) have "\<forall>row \<in> set fin. at_timestamp row t" by simp
  from Cons.IH [OF this Cons.prems(2) rec] len show ?case by simp
qed

lemma fold_set_offset_value:
  assumes "\<forall>row \<in> set rows. dict_key (columns row ! 2) = k \<longrightarrow> last (columns row) = v"
    and "(\<exists>row \<in> set rows. dict_key (columns row ! 2) = k) \<or> offs k = (if mpl then v else CInt 0)"
  shows "fold (set_offset mpl) rows offs k = (if mpl then v else CInt 0)"
  using assms
proof (induction rows arbitrary: offs)
  case Nil
  then show ?case by simp
next
  case (Cons row rows)
  have "fold (set_offset mpl) rows (set_offset mpl row offs) k = (if mpl then v else CInt 0)"
  proof (rule Cons.IH)
    from Cons.prems(1)
    show "\<forall>row \<in> set rows. dict_key (columns row ! 2) = k \<longrightarrow> last (columns row) = v"
      by simp
    show "(\<exists>row \<in> set rows. dict_key (columns row ! 2) = k)
          \<or> set_offset mpl row offs k = (if mpl then v else CInt 0)"
    proof (cases "dict_key (columns row ! 2) = k")
      case True
      with Cons.prems(1) show ?thesis by (simp add: set_offset_def)
    next
      case False
      with Cons.prems(2) show ?thesis by (auto simp: set_offset_def)
    qed
  qed
  then show ?case by simp
qed

lemma profit_loss_offsets_zero:
  "profit_loss_offsets rows t False offs = Inr offs' \<Longrightarrow>
   \<forall>k. offs k = CInt 0 \<or> offs k = CFloat 0 \<Longrightarrow>
   offs' k = CInt 0 \<or> offs' k = CFloat 0"
proof (induction rows arbitrary: offs)
  case Nil
  then show ?case by simp
next
  case (Cons row rows)
  show ?case
  proof (cases "length (columns row) \<ge> 3 \<and> \<not> cell_ne_int (columns row ! 1) t")
    case True
    with Cons.prems(1)
    have "profit_loss_offsets rows t False (offs(dict_key (columns row ! 2) := CInt 0)) = Inr offs'"
      by (simp split: if_splits)
    moreover from Cons.prems(2)
    have "\<forall>k. (offs(dict_key (columns row ! 2) := CInt 0)) k = CInt 0
             \<or> (offs(dict_key (columns row ! 2) := CInt 0)) k = CFloat 0"
      by simp
    ultimately show ?thesis by (rule Cons.IH)
  next
    case False
    with Cons.prems show ?thesis
      by (auto split: if_splits)
  qed
qed

lemma cell_add_zero:
  assumes "cell_add c z = Inr c'" and "z = CInt 0 \<or> z = CFloat 0"
  shows "cell_value c' = cell_value c" and "cell_value c \<noteq> None"
    and "c = CFloat x \<Longrightarrow> c' = c"
  using assms by (cases c; auto)+

text \<open>Conditional equations for evaluating the two recursive string functions.\<close>

lemma str_nat_digit: "n < 10 \<Longrightarrow> str_nat n = [''0123456789'' ! n]"
  by (simp add: str_nat.simps)

lemma str_nat_more:
  "\<not> n < 10 \<Longrightarrow> str_nat n = str_nat (n div 10) @ [''0123456789'' ! (n mod 10)]"
  by (subst str_nat.simps) simp

lemma py_replace_Nil: "old \<noteq> [] \<Longrightarrow> py_replace old new [] = []"
  by (simp add: py_replace.simps)

lemma py_replace_hit:
  "old \<noteq> [] \<Longrightarrow> take (length old) (c # cs) = old \<Longrightarrow>
   py_replace old new (c # cs) = new @ py_replace old new (drop (length old) (c # cs))"
  by (subst py_replace.simps) simp

lemma py_replace_miss:
  "old \<noteq> [] \<Longrightarrow> take (length old) (c # cs) \<noteq> old \<Longrightarrow>
   py_replace old new (c # cs) = c # py_replace old new cs"
  by (subst py_replace.simps) simp

lemmas eval_simps =
  str_nat_digit str_nat_more str_int_def py_replace_Nil py_replace_hit py_replace_miss

lemma day_a_offsets:
  "profit_loss_offsets (rev (activity_logs day_a)) 200 mpl (\<lambda>_. CFloat 0)
   = Inr ((\<lambda>_. CFloat 0)(CStr ''PEARLS'' := (if mpl then CFloat 7 else CInt 0)))"
  by (simp add: day_a_def)

lemma day_b_activity:
  "offset_activity_logs 300 ((\<lambda>_. CFloat 0)(CStr ''PEARLS'' := (if mpl then CFloat 7 else CInt 0)))
     (activity_logs day_b) = Inr [merged_row mpl]"
  by (simp add: day_b_def ActivityLogRow_with_offset_def merged_row_def)

lemma merge_day_a_day_b:
  \<open>merge_results day_a day_b mpl =
     Inr \<lparr>round' = 1, day = 0,
          sandbox_logs = [\<lparr>SandboxLogRow.timestamp = 200, data = []\<rparr>,
                          \<lparr>SandboxLogRow.timestamp = 400, data = ''{"timestamp":400}''\<rparr>],
          submission_logs =
            [\<lparr>SubmissionLogRow.timestamp = 300,
              data = ''Orders for product PEARLS exceeded limit of 20 set''\<rparr>],
          activity_logs = activity_logs day_a @ [merged_row mpl]\<rparr>\<close>
proof -
  have a: "sandbox_logs day_a = [\<lparr>SandboxLogRow.timestamp = 200, data = []\<rparr>]"
    "submission_logs day_a = []" "round' day_a = 1" "DayResult.day day_a = 0"
    by (simp_all add: day_a_def)
  have b1: \<open>map (\<lambda>row. SandboxLogRow_with_offset row 300) (sandbox_logs day_b)
            = [\<lparr>SandboxLogRow.timestamp = 400, data = ''{"timestamp":400}''\<rparr>]\<close>
    by (simp add: day_b_def SandboxLogRow_with_offset_def eval_simps)
  have b2: "map (\<lambda>row. SubmissionLogRow_with_offset row 300) (submission_logs day_b)
            = [\<lparr>SubmissionLogRow.timestamp = 300,
                data = ''Orders for product PEARLS exceeded limit of 20 set''\<rparr>]"
    by (simp add: day_b_def SubmissionLogRow_with_offset_def)
  show ?thesis
    by (simp add: merge_results_def a b1 b2 day_a_offsets day_b_activity)
qed

text \<open>
  Claim C6: every row of \<open>b\<close> in the merged result, diagnostic, rejection and activity
  alike, carries its original timestamp plus the offset (the last timestamp of \<open>a\<close> plus
  100). The code does not do this for rejection rows: \<^verbatim>\<open>SubmissionLogRow.with_offset\<close> is
  called with the offset and stores its argument as the timestamp, so every rejection row
  of \<open>b\<close> gets the offset itself, whatever its own timestamp was. With the last timestamp
  of \<open>a\<close> at 200 and a rejection row of \<open>b\<close> at 100, the merged row is at 300, not at 400;
  the diagnostic row of \<open>b\<close> at 100 is at 400 and its text is rewritten.
\<close>

theorem merge_rejection_row_timestamp:
  "SubmissionLogRow.timestamp (SubmissionLogRow_with_offset row timestamp_offset) = timestamp_offset
   \<and> (\<exists>r. merge_results day_a day_b False = Inr r
          \<and> map SubmissionLogRow.timestamp (submission_logs day_b) = [100]
          \<and> map SubmissionLogRow.timestamp (submission_logs r) = [300]
          \<and> map SandboxLogRow.timestamp (sandbox_logs r) = [200, 400])"
proof -
  have 1: "SubmissionLogRow.timestamp (SubmissionLogRow_with_offset row timestamp_offset)
        = timestamp_offset"
    by (simp add: SubmissionLogRow_with_offset_def)
  have 2: "map SubmissionLogRow.timestamp (submission_logs day_b) = [100]"
    by (simp add: day_b_def)
  show ?thesis
    unfolding 1 2 by (simp add: merge_day_a_day_b)
qed

text \<open>
  Claim C10: whenever \<^verbatim>\<open>merge_results\<close> returns, with either setting of the flag, the three
  sequences of the result begin with the rows of \<open>a\<close>, unchanged and in their order, and
  continue with one row per row of \<open>b\<close>; the activity row made from a row of \<open>b\<close> has the
  same number of columns and agrees with it in every column other than column 1 (the
  timestamp) and the last column (the profit and loss): the day, the product, the twelve
  book-level columns and the mid price are unchanged.
\<close>

theorem merge_frame:
  assumes "merge_results a b mpl = Inr r"
  shows "take (length (sandbox_logs a)) (sandbox_logs r) = sandbox_logs a
       \<and> take (length (submission_logs a)) (submission_logs r) = submission_logs a
       \<and> take (length (activity_logs a)) (activity_logs r) = activity_logs a
       \<and> length (sandbox_logs r) = length (sandbox_logs a) + length (sandbox_logs b)
       \<and> length (submission_logs r) = length (submission_logs a) + length (submission_logs b)
       \<and> length (activity_logs r) = length (activity_logs a) + length (activity_logs b)
       \<and> (\<forall>j < length (activity_logs b).
            length (columns (activity_logs r ! (length (activity_logs a) + j)))
              = length (columns (activity_logs b ! j))
            \<and> (\<forall>i < length (columns (activity_logs b ! j)).
                  i \<noteq> 1 \<and> i \<noteq> length (columns (activity_logs b ! j)) - 1 \<longrightarrow>
                  columns (activity_logs r ! (length (activity_logs a) + j)) ! i
                    = columns (activity_logs b ! j) ! i))"
proof -
  from merge_results_Inr [OF assms] obtain offsets activity where
    act: "offset_activity_logs (SandboxLogRow.timestamp (last (sandbox_logs a)) + 100) offsets
            (activity_logs b) = Inr activity"
    and r: "activity_logs r = activity_logs a @ activity"
    and sb: "sandbox_logs r = sandbox_logs a @
           map (\<lambda>row. SandboxLogRow_with_offset row
                  (SandboxLogRow.timestamp (last (sandbox_logs a)) + 100)) (sandbox_logs b)"
    and sm: "submission_logs r = submission_logs a @
           map (\<lambda>row. SubmissionLogRow_with_offset row
                  (SandboxLogRow.timestamp (last (sandbox_logs a)) + 100)) (submission_logs b)"
    by blast
  note l2 = offset_activity_logs_Inr [OF act]
  then have len: "length activity = length (activity_logs b)"
    by (simp add: list_all2_lengthD)
  have rows: "length (columns (activity ! j)) = length (columns (activity_logs b ! j))
        \<and> (\<forall>i < length (columns (activity_logs b ! j)).
              i \<noteq> 1 \<and> i \<noteq> length (columns (activity_logs b ! j)) - 1 \<longrightarrow>
              columns (activity ! j) ! i = columns (activity_logs b ! j) ! i)"
    if "j < length (activity_logs b)" for j
  proof -
    from l2 that
    have "\<exists>pl. ActivityLogRow_with_offset (activity_logs b ! j)
            (SandboxLogRow.timestamp (last (sandbox_logs a)) + 100) pl = Inr (activity ! j)"
      by (auto simp: list_all2_conv_all_nth)
    then obtain pl where w: "ActivityLogRow_with_offset (activity_logs b ! j)
            (SandboxLogRow.timestamp (last (sandbox_logs a)) + 100) pl = Inr (activity ! j)"
      by blast
    from with_offset_Inr(2) [OF w] with_offset_Inr(3) [OF w] show ?thesis
      by blast
  qed
  show ?thesis
    using rows by (simp add: r sb sm len nth_append)
qed

text \<open>
  Claim C7: let \<^verbatim>\<open>merge_results\<close> return \<open>r\<close> and take the \<open>j\<close>-th activity row of \<open>b\<close>.
  With the flag disabled, the profit and loss of the merged row is numerically that of
  the row of \<open>b\<close> (and the same float when it is a float). With the flag enabled: when the
  activity rows of \<open>a\<close> at the last timestamp of \<open>a\<close> are the end \<open>fin\<close> of its log, and
  \<open>ra\<close> is the row among them with the product of the row of \<open>b\<close> (any other such row
  carrying the same profit and loss), the profit and loss of the merged row is that of
  the row of \<open>b\<close> plus that of \<open>ra\<close>.
\<close>

theorem merge_profit_loss:
  assumes "merge_results a b merge_profit_loss = Inr r" and "j < length (activity_logs b)"
  shows "(\<not> merge_profit_loss \<longrightarrow>
            cell_value (last (columns (activity_logs r ! (length (activity_logs a) + j))))
              = cell_value (last (columns (activity_logs b ! j)))
            \<and> cell_value (last (columns (activity_logs b ! j))) \<noteq> None
            \<and> (\<forall>x. last (columns (activity_logs b ! j)) = CFloat x \<longrightarrow>
                  last (columns (activity_logs r ! (length (activity_logs a) + j))) = CFloat x))
       \<and> (merge_profit_loss \<longrightarrow>
            (\<forall>pre fin ra.
               activity_logs a = pre @ fin
               \<and> (\<forall>row \<in> set pre.
                     \<not> at_timestamp row (SandboxLogRow.timestamp (last (sandbox_logs a))))
               \<and> (\<forall>row \<in> set fin.
                     at_timestamp row (SandboxLogRow.timestamp (last (sandbox_logs a))))
               \<and> ra \<in> set fin
               \<and> dict_key (columns ra ! 2) = dict_key (columns (activity_logs b ! j) ! 2)
               \<and> (\<forall>row \<in> set fin.
                     dict_key (columns row ! 2) = dict_key (columns ra ! 2) \<longrightarrow>
                     last (columns row) = last (columns ra))
               \<longrightarrow> cell_add (last (columns (activity_logs b ! j))) (last (columns ra))
                     = Inr (last (columns (activity_logs r ! (length (activity_logs a) + j))))))"
proof -
  define t where "t = SandboxLogRow.timestamp (last (sandbox_logs a))"
  define k where "k = dict_key (columns (activity_logs b ! j) ! 2)"
  define old where "old = last (columns (activity_logs b ! j))"
  define new where "new = last (columns (activity_logs r ! (length (activity_logs a) + j)))"
  from merge_results_Inr(2) [OF assms(1)] obtain offsets activity where
    plo: "profit_loss_offsets (rev (activity_logs a)) t merge_profit_loss (\<lambda>_. CFloat 0)
            = Inr offsets"
    and act: "offset_activity_logs (t + 100) offsets (activity_logs b) = Inr activity"
    and r: "activity_logs r = activity_logs a @ activity"
    unfolding t_def by blast
  note l2 = offset_activity_logs_Inr [OF act]
  from l2 assms(2) have len: "length (columns (activity_logs b ! j)) \<ge> 3"
    and w: "ActivityLogRow_with_offset (activity_logs b ! j) (t + 100) (offsets k)
              = Inr (activity ! j)"
    by (auto simp: list_all2_conv_all_nth k_def)
  have "activity_logs r ! (length (activity_logs a) + j) = activity ! j"
    by (simp add: r)
  with with_offset_Inr(5) [OF w len] have add: "cell_add old (offsets k) = Inr new"
    by (simp add: old_def new_def)
  have disabled: "cell_value new = cell_value old \<and> cell_value old \<noteq> None
                  \<and> (\<forall>x. old = CFloat x \<longrightarrow> new = CFloat x)"
    if "\<not> merge_profit_loss"
  proof -
    from that plo have "offsets k = CInt 0 \<or> offsets k = CFloat 0"
      using profit_loss_offsets_zero [of "rev (activity_logs a)" t "\<lambda>_. CFloat 0" offsets k]
      by simp
    from cell_add_zero [OF add this] show ?thesis by simp
  qed
  have enabled: "cell_add old (last (columns ra)) = Inr new"
    if mpl: "merge_profit_loss" and split: "activity_logs a = pre @ fin"
      and pre: "\<forall>row \<in> set pre. \<not> at_timestamp row t"
      and fin: "\<forall>row \<in> set fin. at_timestamp row t"
      and ra: "ra \<in> set fin" "dict_key (columns ra ! 2) = k"
      and uniq: "\<forall>row \<in> set fin. dict_key (columns row ! 2) = dict_key (columns ra ! 2) \<longrightarrow>
                   last (columns row) = last (columns ra)"
    for pre fin ra
  proof -
    from plo split
    have plo': "profit_loss_offsets (rev fin @ rev pre) t merge_profit_loss (\<lambda>_. CFloat 0)
                  = Inr offsets"
      by simp
    from fin have fin': "\<forall>row \<in> set (rev fin). at_timestamp row t"
      by simp
    have rest: "rev pre = [] \<or> \<not> at_timestamp (hd (rev pre)) t"
    proof (cases "pre = []")
      case True
      then show ?thesis by simp
    next
      case False
      then have "hd (rev pre) \<in> set pre"
        by (simp add: hd_rev)
      with pre show ?thesis by blast
    qed
    from profit_loss_offsets_block [OF fin' rest plo']
    have offs: "offsets = fold (set_offset merge_profit_loss) (rev fin) (\<lambda>_. CFloat 0)"
      by simp
    have "fold (set_offset merge_profit_loss) (rev fin) (\<lambda>_. CFloat 0) k
          = (if merge_profit_loss then last (columns ra) else CInt 0)"
    proof (rule fold_set_offset_value)
      from uniq ra(2)
      show "\<forall>row \<in> set (rev fin). dict_key (columns row ! 2) = k \<longrightarrow>
              last (columns row) = last (columns ra)"
        by simp
      from ra
      show "(\<exists>row \<in> set (rev fin). dict_key (columns row ! 2) = k)
            \<or> (\<lambda>_. CFloat 0) k = (if merge_profit_loss then last (columns ra) else CInt 0)"
        by auto
    qed
    with offs mpl have "offsets k = last (columns ra)"
      by simp
    with add show ?thesis by simp
  qed
  from disabled enabled show ?thesis
    unfolding t_def k_def old_def new_def by blast
qed

text \<open>
  Witness for C7: day \<open>a\<close> ends at timestamp 200 with a profit of 7 for PEARLS, day \<open>b\<close>
  has a PEARLS row with a profit of 5. Merged with the flag, the row carries 12; merged
  without, 5.
\<close>

theorem merge_profit_loss_witness:
  "(\<exists>r. merge_results day_a day_b True = Inr r
        \<and> last (columns (activity_logs day_a ! 0)) = CFloat 7
        \<and> last (columns (activity_logs day_b ! 0)) = CFloat 5
        \<and> last (columns (activity_logs r ! 1)) = CFloat 12)
   \<and> (\<exists>r. merge_results day_a day_b False = Inr r
        \<and> cell_value (last (columns (activity_logs r ! 1))) = Some 5)"
proof -
  have a: "length (activity_logs day_a) = 1"
    "length (activity_logs day_a) = Suc 0" "sandbox_logs day_a \<noteq> []"
    "SandboxLogRow.timestamp (last (sandbox_logs day_a)) = 200"
    "last (columns (activity_logs day_a ! 0)) = CFloat 7"
    "activity_logs day_a ! 0 \<in> set (activity_logs day_a)"
    "dict_key (columns (activity_logs day_a ! 0) ! 2) = CStr ''PEARLS''"
    by (simp_all add: day_a_def)
  have fin: "\<forall>row \<in> set (activity_logs day_a).
               at_timestamp row (SandboxLogRow.timestamp (last (sandbox_logs day_a)))"
    by (simp add: day_a_def at_timestamp_def)
  have uniq: "\<forall>row \<in> set (activity_logs day_a).
                dict_key (columns row ! 2) = dict_key (columns (activity_logs day_a ! 0) ! 2) \<longrightarrow>
                last (columns row) = last (columns (activity_logs day_a ! 0))"
    by (simp add: day_a_def)
  have b: "0 < length (activity_logs day_b)"
    "last (columns (activity_logs day_b ! 0)) = CFloat 5"
    "dict_key (columns (activity_logs day_b ! 0) ! 2) = CStr ''PEARLS''"
    by (simp_all add: day_b_def)
  obtain r1 where r1: "merge_results day_a day_b True = Inr r1"
    by (simp add: merge_day_a_day_b)
  obtain r2 where r2: "merge_results day_a day_b False = Inr r2"
    by (simp add: merge_day_a_day_b)
  note enabled = merge_profit_loss [OF r1 b(1), THEN conjunct2, rule_format, OF TrueI,
      where pre = "[]" and fin = "activity_logs day_a" and ra = "activity_logs day_a ! 0"]
  have "cell_add (last (columns (activity_logs day_b ! 0)))
          (last (columns (activity_logs day_a ! 0)))
        = Inr (last (columns (activity_logs r1 ! (length (activity_logs day_a) + 0))))"
  proof (rule enabled, intro conjI)
    show "activity_logs day_a = [] @ activity_logs day_a" by simp
    show "\<forall>row \<in> set []. \<not> at_timestamp row (SandboxLogRow.timestamp (last (sandbox_logs day_a)))"
      by simp
    show "\<forall>row \<in> set (activity_logs day_a).
            at_timestamp row (SandboxLogRow.timestamp (last (sandbox_logs day_a)))"
      by (rule fin)
    show "activity_logs day_a ! 0 \<in> set (activity_logs day_a)" by (rule a(6))
    show "dict_key (columns (activity_logs day_a ! 0) ! 2)
          = dict_key (columns (activity_logs day_b ! 0) ! 2)"
      by (simp add: a(7) b(3))
    show "\<forall>row \<in> set (activity_logs day_a).
            dict_key (columns row ! 2) = dict_key (columns (activity_logs day_a ! 0) ! 2) \<longrightarrow>
            last (columns row) = last (columns (activity_logs day_a ! 0))"
      by (rule uniq)
  qed
  then have 1: "last (columns (activity_logs r1 ! 1)) = CFloat 12"
    by (simp add: a b)
  note disabled = merge_profit_loss [OF r2 b(1), THEN conjunct1, rule_format, THEN conjunct1]
  have "cell_value (last (columns (activity_logs r2 ! (length (activity_logs day_a) + 0))))
        = cell_value (last (columns (activity_logs day_b ! 0)))"
    by (rule disabled) simp
  then have 2: "cell_value (last (columns (activity_logs r2 ! 1))) = Some 5"
    by (simp add: a b)
  from r1 r2 1 2 a b show ?thesis by simp
qed

text \<open>
  Witness for C10 on the same two days: the merged sequences begin with the rows of
  \<open>a\<close>, and the merged row of \<open>b\<close> keeps its 17 columns, its day, its product and its mid
  price.
\<close>

theorem merge_frame_witness:
  "\<exists>r. merge_results day_a day_b True = Inr r
      \<and> take 1 (sandbox_logs r) = sandbox_logs day_a
      \<and> take 0 (submission_logs r) = submission_logs day_a
      \<and> take 1 (activity_logs r) = activity_logs day_a
      \<and> length (columns (activity_logs r ! 1)) = 17
      \<and> columns (activity_logs r ! 1) ! 0 = CInt 0
      \<and> columns (activity_logs r ! 1) ! 2 = CStr ''PEARLS''
      \<and> columns (activity_logs r ! 1) ! 15 = CFloat 10000"
proof -
  obtain r where r: "merge_results day_a day_b True = Inr r"
    by (simp add: merge_day_a_day_b)
  have a: "length (sandbox_logs day_a) = 1" "length (submission_logs day_a) = 0"
    "length (activity_logs day_a) = 1"
    by (simp_all add: day_a_def)
  have b: "0 < length (activity_logs day_b)" "length (columns (activity_logs day_b ! 0)) = 17"
    "columns (activity_logs day_b ! 0) ! 0 = CInt 0"
    "columns (activity_logs day_b ! 0) ! 2 = CStr ''PEARLS''"
    "columns (activity_logs day_b ! 0) ! 15 = CFloat 10000"
    by (simp_all add: day_b_def)
  note f = merge_frame [OF r, unfolded a]
  from f have p: "take 1 (sandbox_logs r) = sandbox_logs day_a"
    "take 0 (submission_logs r) = submission_logs day_a"
    "take 1 (activity_logs r) = activity_logs day_a"
    by blast+
  from f b(1) have l: "length (columns (activity_logs r ! (1 + 0))) = length (columns (activity_logs day_b ! 0))"
    and c: "\<forall>i < length (columns (activity_logs day_b ! 0)).
                  i \<noteq> 1 \<and> i \<noteq> length (columns (activity_logs day_b ! 0)) - 1 \<longrightarrow>
                  columns (activity_logs r ! (1 + 0)) ! i = columns (activity_logs day_b ! 0) ! i"
    by blast+
  from c have "columns (activity_logs r ! 1) ! 0 = CInt 0"
    "columns (activity_logs r ! 1) ! 2 = CStr ''PEARLS''"
    "columns (activity_logs r ! 1) ! 15 = CFloat 10000"
    by (simp_all add: b)
  with r p l b(2) show ?thesis by simp
qed

section \<open>Matching one order: proofs\<close>

lemma delete_update_same: "AList.delete p (AList.update p v d) = AList.delete p d"
  by (induction d) auto

lemma map_of_update_other: "p' \<noteq> p \<Longrightarrow> map_of (AList.update p v d) p' = map_of d p'"
  by (simp add: update_conv')

lemma map_of_delete_other: "p' \<noteq> p \<Longrightarrow> map_of (AList.delete p d) p' = map_of d p'"
  by (simp add: delete_conv')

lemma buy_loop_fills:
  assumes "distinct ps" and "set ps \<subseteq> fst ` set (sell_orders od)" and "Order.quantity ord > 0"
  shows "\<exists>ord' od' s'. buy_loop ts ps ord od s = Inr (ord', od', s')
     \<and> (let fills = spec_fills (Order.quantity ord) (map (\<lambda>p. (p, resting_ask od p)) ps) in
        ord' = ord\<lparr>Order.quantity := Order.quantity ord - fill_volume fills\<rparr>
      \<and> od' = od\<lparr>sell_orders := deplete (+) fills (sell_orders od)\<rparr>
      \<and> order_depths s' = order_depths s
      \<and> (\<forall>k. trades_of s' k = (if k = Order.symbol ord
                 then trades_of s k @ map (buy_trade k ts) fills else trades_of s k))
      \<and> (\<forall>k. own_trades s' k = None \<longleftrightarrow> own_trades s k = None \<and> (k = Order.symbol ord \<longrightarrow> fills = []))
      \<and> (\<forall>k. own_positions s' k = (if k = Order.symbol ord
                 then own_positions s k + fill_volume fills else own_positions s k))
      \<and> (\<forall>k. seashells_by_product s' k = (if k = Order.symbol ord
                 then seashells_by_product s k - of_int (fill_value fills)
                 else seashells_by_product s k)))"
  using assms
proof (induction ps arbitrary: ord od s)
  case Nil
  then show ?case by (simp add: fill_volume_def fill_value_def deplete_def)
next
  case (Cons p ps)
  from Cons.prems have "p \<in> fst ` set (sell_orders od)" by auto
  then have "map_of (sell_orders od) p \<noteq> None" by (simp add: map_of_eq_None_iff)
  then obtain v where v: "map_of (sell_orders od) p = Some v" by auto
  define volume where "volume = min (Order.quantity ord) (abs v)"
  define so1 where "so1 = (if v + volume = 0 then AList.delete p (sell_orders od) else AList.update p (v + volume) (sell_orders od))"
  define od1 where "od1 = od\<lparr>sell_orders := so1\<rparr>"
  define ord1 where "ord1 = ord\<lparr>Order.quantity := Order.quantity ord - volume\<rparr>"
  define s1 where "s1 = s\<lparr>own_trades := append_trade (own_trades s) (Order.symbol ord)
                        \<lparr>Trade.symbol = Order.symbol ord, price = p, quantity = volume,
                         buyer = ''SUBMISSION'', seller = [], timestamp = ts\<rparr>,
                     own_positions := (own_positions s)
                        (Order.symbol ord := own_positions s (Order.symbol ord) + volume),
                     seashells_by_product := (seashells_by_product s)
                        (Order.symbol ord :=
                           seashells_by_product s (Order.symbol ord) - of_int (p * volume))\<rparr>"
  have rest: "resting_ask od p = abs v" by (simp add: resting_ask_def v)
  have mv: "min (Order.quantity ord) (resting_ask od p) = volume" by (simp add: rest volume_def)
  have step: "buy_loop ts (p # ps) ord od s =
     (if Order.quantity ord - volume = 0 then Inr (ord1, od1, s1) else buy_loop ts ps ord1 od1 s1)"
    by (simp add: v Let_def volume_def so1_def od1_def ord1_def s1_def delete_update_same)
  have dep1: "deplete (+) [(p, volume)] (sell_orders od) = so1"
    by (simp add: deplete_def v so1_def)
  have s1_simps: "order_depths s1 = order_depths s"
    "\<And>k. trades_of s1 k = (if k = Order.symbol ord
                 then trades_of s k @ map (buy_trade k ts) [(p, volume)] else trades_of s k)"
    "\<And>k. own_trades s1 k = None \<longleftrightarrow> own_trades s k = None \<and> k \<noteq> Order.symbol ord"
    "\<And>k. own_positions s1 k = (if k = Order.symbol ord
                 then own_positions s k + volume else own_positions s k)"
    "\<And>k. seashells_by_product s1 k = (if k = Order.symbol ord
                 then seashells_by_product s k - of_int (p * volume)
                 else seashells_by_product s k)"
    by (simp_all add: s1_def append_trade_def trades_of_def buy_trade_def)
  show ?case
  proof (cases "Order.quantity ord - volume = 0")
    case True
    have sf: "spec_fills (Order.quantity ord) (map (\<lambda>p. (p, resting_ask od p)) (p # ps)) = [(p, volume)]"
      unfolding list.map spec_fills.simps Let_def mv using True by simp
    show ?thesis
      unfolding step sf Let_def dep1 using True
      by (simp add: s1_simps ord1_def od1_def fill_volume_def fill_value_def)
  next
    case False
    from Cons.prems have d: "distinct ps" and pn: "p \<notin> set ps" by auto
    have keys: "set ps \<subseteq> fst ` set (sell_orders od1)"
    proof
      fix p' assume p': "p' \<in> set ps"
      with pn have ne: "p' \<noteq> p" by auto
      from p' Cons.prems(2) have "map_of (sell_orders od) p' \<noteq> None"
        by (auto simp: map_of_eq_None_iff)
      with ne have "map_of (sell_orders od1) p' \<noteq> None"
        by (simp add: od1_def so1_def map_of_update_other map_of_delete_other)
      then show "p' \<in> fst ` set (sell_orders od1)"
        by (simp add: map_of_eq_None_iff)
    qed
    from False Cons.prems(3) have q1: "Order.quantity ord1 > 0"
      by (simp add: ord1_def volume_def)
    have "resting_ask od1 p' = resting_ask od p'" if "p' \<in> set ps" for p'
    proof -
      from that pn have "p' \<noteq> p" by auto
      then show ?thesis
        by (simp add: resting_ask_def od1_def so1_def map_of_update_other map_of_delete_other)
    qed
    then have same: "map (\<lambda>p. (p, resting_ask od1 p)) ps = map (\<lambda>p. (p, resting_ask od p)) ps"
      by simp
    define fills1 where "fills1 = spec_fills (Order.quantity ord - volume) (map (\<lambda>p. (p, resting_ask od p)) ps)"
    from Cons.IH [OF d keys q1, of s1] obtain ord' od' s' where
      r: "buy_loop ts ps ord1 od1 s1 = Inr (ord', od', s')"
      and ih: "ord' = ord1\<lparr>Order.quantity := Order.quantity ord1 - fill_volume fills1\<rparr>"
      "od' = od1\<lparr>sell_orders := deplete (+) fills1 (sell_orders od1)\<rparr>"
      "order_depths s' = order_depths s1"
      "\<And>k. trades_of s' k = (if k = Order.symbol ord1
                 then trades_of s1 k @ map (buy_trade k ts) fills1 else trades_of s1 k)"
      "\<And>k. own_trades s' k = None \<longleftrightarrow> own_trades s1 k = None \<and> (k = Order.symbol ord1 \<longrightarrow> fills1 = [])"
      "\<And>k. own_positions s' k = (if k = Order.symbol ord1
                 then own_positions s1 k + fill_volume fills1 else own_positions s1 k)"
      "\<And>k. seashells_by_product s' k = (if k = Order.symbol ord1
                 then seashells_by_product s1 k - of_int (fill_value fills1)
                 else seashells_by_product s1 k)"
      unfolding same Let_def fills1_def ord1_def by (auto simp: ord1_def)
    have sf: "spec_fills (Order.quantity ord) (map (\<lambda>p. (p, resting_ask od p)) (p # ps)) = (p, volume) # fills1"
      unfolding list.map spec_fills.simps Let_def mv fills1_def using False by simp
    have dep: "deplete (+) ((p, volume) # fills1) (sell_orders od) = deplete (+) fills1 so1"
      using dep1 by (simp add: deplete_def)
    show ?thesis
      unfolding step sf dep Let_def using False r
      by (simp add: ih s1_simps ord1_def od1_def fill_volume_def fill_value_def cong: conj_cong)
  qed
qed

lemma sell_loop_fills:
  assumes "distinct ps" and "set ps \<subseteq> fst ` set (buy_orders od)" and "Order.quantity ord < 0"
    and "\<forall>p \<in> set ps. resting_bid od p \<ge> 0"
  shows "\<exists>ord' od' s'. sell_loop ts ps ord od s = Inr (ord', od', s')
     \<and> (let fills = spec_fills (- Order.quantity ord) (map (\<lambda>p. (p, resting_bid od p)) ps) in
        ord' = ord\<lparr>Order.quantity := Order.quantity ord + fill_volume fills\<rparr>
      \<and> od' = od\<lparr>buy_orders := deplete (-) fills (buy_orders od)\<rparr>
      \<and> order_depths s' = order_depths s
      \<and> (\<forall>k. trades_of s' k = (if k = Order.symbol ord
                 then trades_of s k @ map (sell_trade k ts) fills else trades_of s k))
      \<and> (\<forall>k. own_trades s' k = None \<longleftrightarrow> own_trades s k = None \<and> (k = Order.symbol ord \<longrightarrow> fills = []))
      \<and> (\<forall>k. own_positions s' k = (if k = Order.symbol ord
                 then own_positions s k - fill_volume fills else own_positions s k))
      \<and> (\<forall>k. seashells_by_product s' k = (if k = Order.symbol ord
                 then seashells_by_product s k + of_int (fill_value fills)
                 else seashells_by_product s k)))"
  using assms
proof (induction ps arbitrary: ord od s)
  case Nil
  then show ?case by (simp add: fill_volume_def fill_value_def deplete_def)
next
  case (Cons p ps)
  from Cons.prems have "p \<in> fst ` set (buy_orders od)" by auto
  then have "map_of (buy_orders od) p \<noteq> None" by (simp add: map_of_eq_None_iff)
  then obtain v where v: "map_of (buy_orders od) p = Some v" by auto
  define volume where "volume = min (abs (Order.quantity ord)) v"
  define so1 where "so1 = (if v - volume = 0 then AList.delete p (buy_orders od) else AList.update p (v - volume) (buy_orders od))"
  define od1 where "od1 = od\<lparr>buy_orders := so1\<rparr>"
  define ord1 where "ord1 = ord\<lparr>Order.quantity := Order.quantity ord + volume\<rparr>"
  define s1 where "s1 = s\<lparr>own_trades := append_trade (own_trades s) (Order.symbol ord)
                        \<lparr>Trade.symbol = Order.symbol ord, price = p, quantity = volume,
                         buyer = [], seller = ''SUBMISSION'', timestamp = ts\<rparr>,
                     own_positions := (own_positions s)
                        (Order.symbol ord := own_positions s (Order.symbol ord) - volume),
                     seashells_by_product := (seashells_by_product s)
                        (Order.symbol ord :=
                           seashells_by_product s (Order.symbol ord) + of_int (p * volume))\<rparr>"
  have rest: "resting_bid od p = v" by (simp add: resting_bid_def v)
  from Cons.prems(4) rest have v0: "v \<ge> 0" by simp
  have mv: "min (- Order.quantity ord) (resting_bid od p) = volume"
    using Cons.prems(3) by (simp add: rest volume_def)
  from v0 Cons.prems(3) have vol: "0 \<le> volume" "volume \<le> - Order.quantity ord"
    by (simp_all add: volume_def)
  have step: "sell_loop ts (p # ps) ord od s =
     (if Order.quantity ord + volume = 0 then Inr (ord1, od1, s1) else sell_loop ts ps ord1 od1 s1)"
    by (simp add: v Let_def volume_def so1_def od1_def ord1_def s1_def delete_update_same)
  have dep1: "deplete (-) [(p, volume)] (buy_orders od) = so1"
    by (simp add: deplete_def v so1_def)
  have s1_simps: "order_depths s1 = order_depths s"
    "\<And>k. trades_of s1 k = (if k = Order.symbol ord
                 then trades_of s k @ map (sell_trade k ts) [(p, volume)] else trades_of s k)"
    "\<And>k. own_trades s1 k = None \<longleftrightarrow> own_trades s k = None \<and> k \<noteq> Order.symbol ord"
    "\<And>k. own_positions s1 k = (if k = Order.symbol ord
                 then own_positions s k - volume else own_positions s k)"
    "\<And>k. seashells_by_product s1 k = (if k = Order.symbol ord
                 then seashells_by_product s k + of_int (p * volume)
                 else seashells_by_product s k)"
    by (simp_all add: s1_def append_trade_def trades_of_def sell_trade_def)
  show ?case
  proof (cases "Order.quantity ord + volume = 0")
    case True
    have sf: "spec_fills (- Order.quantity ord) (map (\<lambda>p. (p, resting_bid od p)) (p # ps)) = [(p, volume)]"
      unfolding list.map spec_fills.simps Let_def mv using True by simp
    show ?thesis
      unfolding step sf Let_def dep1 using True
      by (simp add: s1_simps ord1_def od1_def fill_volume_def fill_value_def)
  next
    case False
    from Cons.prems have d: "distinct ps" and pn: "p \<notin> set ps" by auto
    have keys: "set ps \<subseteq> fst ` set (buy_orders od1)"
    proof
      fix p' assume p': "p' \<in> set ps"
      with pn have ne: "p' \<noteq> p" by auto
      from p' Cons.prems(2) have "map_of (buy_orders od) p' \<noteq> None"
        by (auto simp: map_of_eq_None_iff)
      with ne have "map_of (buy_orders od1) p' \<noteq> None"
        by (simp add: od1_def so1_def map_of_update_other map_of_delete_other)
      then show "p' \<in> fst ` set (buy_orders od1)"
        by (simp add: map_of_eq_None_iff)
    qed
    from False vol have q1: "Order.quantity ord1 < 0"
      by (simp add: ord1_def)
    have "resting_bid od1 p' = resting_bid od p'" if "p' \<in> set ps" for p'
    proof -
      from that pn have "p' \<noteq> p" by auto
      then show ?thesis
        by (simp add: resting_bid_def od1_def so1_def map_of_update_other map_of_delete_other)
    qed
    then have same: "map (\<lambda>p. (p, resting_bid od1 p)) ps = map (\<lambda>p. (p, resting_bid od p)) ps"
      by simp
    from Cons.prems(4) have nn: "\<forall>p \<in> set ps. resting_bid od1 p \<ge> 0"
      by (simp add: \<open>\<And>p'. p' \<in> set ps \<Longrightarrow> resting_bid od1 p' = resting_bid od p'\<close>)
    define fills1 where "fills1 = spec_fills (- Order.quantity ord - volume) (map (\<lambda>p. (p, resting_bid od p)) ps)"
    have neg: "- Order.quantity ord1 = - Order.quantity ord - volume"
      by (simp add: ord1_def)
    from Cons.IH [OF d keys q1 nn, of s1] obtain ord' od' s' where
      r: "sell_loop ts ps ord1 od1 s1 = Inr (ord', od', s')"
      and ih: "ord' = ord1\<lparr>Order.quantity := Order.quantity ord1 + fill_volume fills1\<rparr>"
      "od' = od1\<lparr>buy_orders := deplete (-) fills1 (buy_orders od1)\<rparr>"
      "order_depths s' = order_depths s1"
      "\<And>k. trades_of s' k = (if k = Order.symbol ord1
                 then trades_of s1 k @ map (sell_trade k ts) fills1 else trades_of s1 k)"
      "\<And>k. own_trades s' k = None \<longleftrightarrow> own_trades s1 k = None \<and> (k = Order.symbol ord1 \<longrightarrow> fills1 = [])"
      "\<And>k. own_positions s' k = (if k = Order.symbol ord1
                 then own_positions s1 k - fill_volume fills1 else own_positions s1 k)"
      "\<And>k. seashells_by_product s' k = (if k = Order.symbol ord1
                 then seashells_by_product s1 k + of_int (fill_value fills1)
                 else seashells_by_product s1 k)"
      unfolding same Let_def fills1_def neg by (auto simp: ord1_def)
    have sf: "spec_fills (- Order.quantity ord) (map (\<lambda>p. (p, resting_bid od p)) (p # ps)) = (p, volume) # fills1"
      unfolding list.map spec_fills.simps Let_def mv fills1_def using False by simp
    have dep: "deplete (-) ((p, volume) # fills1) (buy_orders od) = deplete (-) fills1 so1"
      using dep1 by (simp add: deplete_def)
    show ?thesis
      unfolding step sf dep Let_def using False r
      by (simp add: ih s1_simps ord1_def od1_def fill_volume_def fill_value_def cong: conj_cong)
  qed
qed

lemma spec_fills_length: "length (spec_fills q lv) \<le> length lv"
  by (induction lv arbitrary: q) (auto simp: Let_def)

lemma spec_fills_prefix:
  "map fst (spec_fills q lv) = take (length (spec_fills q lv)) (map fst lv)"
  by (induction lv arbitrary: q) (auto simp: Let_def)

lemma spec_fills_nth:
  "i < length (spec_fills q lv) \<Longrightarrow>
   spec_fills q lv ! i =
     (fst (lv ! i), min (q - sum_list (map snd (take i (spec_fills q lv)))) (snd (lv ! i)))"
proof (induction lv arbitrary: q i)
  case Nil
  then show ?case by simp
next
  case (Cons l lv)
  obtain p r where l: "l = (p, r)" by (cases l)
  show ?case
  proof (cases i)
    case 0
    then show ?thesis by (simp add: l Let_def)
  next
    case (Suc j)
    with Cons.prems have ne: "q - min q r \<noteq> 0" and j: "j < length (spec_fills (q - min q r) lv)"
      by (auto simp: l Let_def split: if_splits)
    from ne have eq: "spec_fills q (l # lv) = (p, min q r) # spec_fills (q - min q r) lv"
      by (simp only: l spec_fills.simps Let_def if_False)
    show ?thesis
      unfolding eq Suc using Cons.IH [OF j] by (simp add: algebra_simps)
  qed
qed

lemma spec_fills_remaining:
  "0 < q \<Longrightarrow> i < length (spec_fills q lv) \<Longrightarrow>
   sum_list (map snd (take i (spec_fills q lv))) < q"
proof (induction lv arbitrary: q i)
  case Nil
  then show ?case by simp
next
  case (Cons l lv)
  obtain p r where l: "l = (p, r)" by (cases l)
  show ?case
  proof (cases i)
    case 0
    with Cons.prems show ?thesis by simp
  next
    case (Suc j)
    with Cons.prems have ne: "q - min q r \<noteq> 0" and j: "j < length (spec_fills (q - min q r) lv)"
      by (auto simp: l Let_def split: if_splits)
    from ne have pos: "0 < q - min q r" by simp
    from Cons.IH [OF pos j] ne show ?thesis
      by (simp add: l Let_def Suc)
  qed
qed

lemma spec_fills_stop:
  "length (spec_fills q lv) < length lv \<Longrightarrow> fill_volume (spec_fills q lv) = q"
  by (induction lv arbitrary: q) (auto simp: Let_def fill_volume_def split: if_splits)

lemma spec_fills_bounds:
  "0 < q \<Longrightarrow> \<forall>l \<in> set lv. 0 \<le> snd l \<Longrightarrow>
   (\<forall>f \<in> set (spec_fills q lv). 0 \<le> snd f) \<and> 0 \<le> fill_volume (spec_fills q lv)
   \<and> fill_volume (spec_fills q lv) \<le> q"
proof (induction lv arbitrary: q)
  case Nil
  then show ?case by (simp add: fill_volume_def)
next
  case (Cons l lv)
  obtain p r where l: "l = (p, r)" by (cases l)
  with Cons.prems have r: "0 \<le> r" by simp
  show ?case
  proof (cases "q - min q r = 0")
    case True
    with Cons.prems r show ?thesis by (simp add: l Let_def fill_volume_def)
  next
    case False
    then have pos: "0 < q - min q r" by simp
    from Cons.prems have "\<forall>l \<in> set lv. 0 \<le> snd l" by simp
    from Cons.IH [OF pos this] False r Cons.prems(1) show ?thesis
      by (simp add: l Let_def fill_volume_def)
  qed
qed

lemma deplete_Cons:
  "deplete move ((p, f) # fills) side =
     deplete move fills
       (case map_of side p of None \<Rightarrow> side
        | Some v \<Rightarrow> if move v f = 0 then AList.delete p side else AList.update p (move v f) side)"
  by (simp add: deplete_def)

lemma deplete_Nil: "deplete move [] side = side"
  by (simp add: deplete_def)

lemma distinct_deplete:
  "distinct (map fst side) \<Longrightarrow> distinct (map fst (deplete move fills side))"
proof (induction fills arbitrary: side)
  case Nil
  then show ?case by (simp add: deplete_Nil)
next
  case (Cons pf fills)
  obtain p f where pf: "pf = (p, f)" by (cases pf)
  from Cons.prems show ?case
    unfolding pf deplete_Cons
    by (intro Cons.IH) (auto simp: distinct_update distinct_delete split: option.splits)
qed

lemma map_of_deplete:
  "distinct (map fst fills) \<Longrightarrow>
   map_of (deplete move fills side) p =
     (case map_of fills p of
        None \<Rightarrow> map_of side p
      | Some f \<Rightarrow> (case map_of side p of
                     None \<Rightarrow> None
                   | Some v \<Rightarrow> if move v f = 0 then None else Some (move v f)))"
proof (induction fills arbitrary: side)
  case Nil
  then show ?case by (simp add: deplete_Nil)
next
  case (Cons qf fills)
  obtain q f where qf: "qf = (q, f)" by (cases qf)
  from Cons.prems qf have d: "distinct (map fst fills)" and q: "map_of fills q = None"
    by (auto simp: map_of_eq_None_iff)
  define side1 where "side1 = (case map_of side q of None \<Rightarrow> side
        | Some v \<Rightarrow> if move v f = 0 then AList.delete q side else AList.update q (move v f) side)"
  have s1: "map_of side1 p' = (if p' = q then (case map_of side q of None \<Rightarrow> None
                | Some v \<Rightarrow> if move v f = 0 then None else Some (move v f)) else map_of side p')" for p'
    by (auto simp: side1_def update_conv' delete_conv' split: option.splits)
  show ?case
    unfolding qf deplete_Cons side1_def [symmetric] Cons.IH [OF d]
    using q by (auto simp: s1 split: option.splits)
qed

lemma keys_delete_subset: "fst ` set (AList.delete k al) \<subseteq> fst ` set al"
  by (induct al) auto

lemma keys_update_same: "k \<in> fst ` set al \<Longrightarrow> fst ` set (AList.update k v al) = fst ` set al"
  by (auto simp: dom_update)

lemma keys_deplete:
  "fst ` set (deplete move fills side) \<subseteq> fst ` set side"
proof (induction fills arbitrary: side)
  case Nil
  then show ?case by (simp add: deplete_Nil)
next
  case (Cons qf fills)
  obtain q f where qf: "qf = (q, f)" by (cases qf)
  define side1 where "side1 = (case map_of side q of None \<Rightarrow> side
        | Some v \<Rightarrow> if move v f = 0 then AList.delete q side else AList.update q (move v f) side)"
  have "fst ` set side1 \<subseteq> fst ` set side"
  proof (cases "map_of side q")
    case None
    then show ?thesis by (simp add: side1_def)
  next
    case (Some v)
    then have "q \<in> fst ` set side"
      by (metis map_of_eq_None_iff option.distinct(1))
    then show ?thesis
      by (simp add: side1_def Some keys_delete_subset keys_update_same)
  qed
  with Cons.IH [of side1] show ?case
    unfolding qf deplete_Cons side1_def [symmetric] by blast
qed

lemma matchable_asks_props:
  assumes "distinct (map fst (sell_orders od))"
  shows "distinct (matchable_asks od limit)"
    and "sorted (matchable_asks od limit)"
    and "set (matchable_asks od limit) = {p \<in> fst ` set (sell_orders od). p \<le> limit}"
  using assms by (auto simp: matchable_asks_def)

lemma matchable_bids_props:
  assumes "distinct (map fst (buy_orders od))"
  shows "distinct (matchable_bids od limit)"
    and "sorted (rev (matchable_bids od limit))"
    and "set (matchable_bids od limit) = {p \<in> fst ` set (buy_orders od). p \<ge> limit}"
  using assms by (auto simp: matchable_bids_def)

lemma trades_of_order_depths_update [simp]:
  "trades_of (s\<lparr>order_depths := x\<rparr>) k = trades_of s k"
  by (simp add: trades_of_def)

lemma match_order_buy:
  assumes q: "Order.quantity ord > 0"
    and od: "order_depths s (Order.symbol ord) = Some od"
    and d: "distinct (map fst (sell_orders od))"
  shows "\<exists>s'. match_order ts ord s = Inr s'
      \<and> order_depths s' = (order_depths s)(Order.symbol ord \<mapsto>
            od\<lparr>sell_orders := deplete (+) (buy_fills ord od) (sell_orders od)\<rparr>)
      \<and> (\<forall>k. trades_of s' k = (if k = Order.symbol ord
                 then trades_of s k @ map (buy_trade k ts) (buy_fills ord od) else trades_of s k))
      \<and> (\<forall>k. own_trades s' k = None \<longleftrightarrow>
                 own_trades s k = None \<and> (k = Order.symbol ord \<longrightarrow> buy_fills ord od = []))
      \<and> (\<forall>k. own_positions s' k = (if k = Order.symbol ord
                 then own_positions s k + fill_volume (buy_fills ord od) else own_positions s k))
      \<and> (\<forall>k. seashells_by_product s' k = (if k = Order.symbol ord
                 then seashells_by_product s k - of_int (fill_value (buy_fills ord od))
                 else seashells_by_product s k))"
proof -
  note m = matchable_asks_props [OF d, of "Order.price ord"]
  from m(3) have sub: "set (matchable_asks od (Order.price ord)) \<subseteq> fst ` set (sell_orders od)"
    by auto
  from buy_loop_fills [OF m(1) sub q, of ts s] obtain ord' od' s' where
    r: "buy_loop ts (matchable_asks od (Order.price ord)) ord od s = Inr (ord', od', s')"
    and e: "od' = od\<lparr>sell_orders := deplete (+) (buy_fills ord od) (sell_orders od)\<rparr>"
      "order_depths s' = order_depths s"
      "\<And>k. trades_of s' k = (if k = Order.symbol ord
                 then trades_of s k @ map (buy_trade k ts) (buy_fills ord od) else trades_of s k)"
      "\<And>k. own_trades s' k = None \<longleftrightarrow>
                 own_trades s k = None \<and> (k = Order.symbol ord \<longrightarrow> buy_fills ord od = [])"
      "\<And>k. own_positions s' k = (if k = Order.symbol ord
                 then own_positions s k + fill_volume (buy_fills ord od) else own_positions s k)"
      "\<And>k. seashells_by_product s' k = (if k = Order.symbol ord
                 then seashells_by_product s k - of_int (fill_value (buy_fills ord od))
                 else seashells_by_product s k)"
    unfolding Let_def buy_fills_def by blast
  have "match_order ts ord s = Inr (s'\<lparr>order_depths := (order_depths s')(Order.symbol ord \<mapsto> od')\<rparr>)"
    using q od r by (simp add: match_order_def matchable_asks_def)
  then show ?thesis
    by (simp add: e)
qed

lemma match_order_sell:
  assumes q: "Order.quantity ord < 0"
    and od: "order_depths s (Order.symbol ord) = Some od"
    and d: "distinct (map fst (buy_orders od))"
    and nn: "\<forall>pv \<in> set (buy_orders od). snd pv \<ge> 0"
  shows "\<exists>s'. match_order ts ord s = Inr s'
      \<and> order_depths s' = (order_depths s)(Order.symbol ord \<mapsto>
            od\<lparr>buy_orders := deplete (-) (sell_fills ord od) (buy_orders od)\<rparr>)
      \<and> (\<forall>k. trades_of s' k = (if k = Order.symbol ord
                 then trades_of s k @ map (sell_trade k ts) (sell_fills ord od) else trades_of s k))
      \<and> (\<forall>k. own_trades s' k = None \<longleftrightarrow>
                 own_trades s k = None \<and> (k = Order.symbol ord \<longrightarrow> sell_fills ord od = []))
      \<and> (\<forall>k. own_positions s' k = (if k = Order.symbol ord
                 then own_positions s k - fill_volume (sell_fills ord od) else own_positions s k))
      \<and> (\<forall>k. seashells_by_product s' k = (if k = Order.symbol ord
                 then seashells_by_product s k + of_int (fill_value (sell_fills ord od))
                 else seashells_by_product s k))"
proof -
  note m = matchable_bids_props [OF d, of "Order.price ord"]
  from m(3) have sub: "set (matchable_bids od (Order.price ord)) \<subseteq> fst ` set (buy_orders od)"
    by auto
  have rb: "resting_bid od p \<ge> 0" for p
  proof (cases "map_of (buy_orders od) p")
    case None
    then show ?thesis by (simp add: resting_bid_def)
  next
    case (Some v)
    then have "(p, v) \<in> set (buy_orders od)" by (rule map_of_SomeD)
    with nn have "v \<ge> 0" by fastforce
    with Some show ?thesis by (simp add: resting_bid_def)
  qed
  then have nn': "\<forall>p \<in> set (matchable_bids od (Order.price ord)). resting_bid od p \<ge> 0"
    by simp
  from sell_loop_fills [OF m(1) sub q nn', of ts s] obtain ord' od' s' where
    r: "sell_loop ts (matchable_bids od (Order.price ord)) ord od s = Inr (ord', od', s')"
    and e: "od' = od\<lparr>buy_orders := deplete (-) (sell_fills ord od) (buy_orders od)\<rparr>"
      "order_depths s' = order_depths s"
      "\<And>k. trades_of s' k = (if k = Order.symbol ord
                 then trades_of s k @ map (sell_trade k ts) (sell_fills ord od) else trades_of s k)"
      "\<And>k. own_trades s' k = None \<longleftrightarrow>
                 own_trades s k = None \<and> (k = Order.symbol ord \<longrightarrow> sell_fills ord od = [])"
      "\<And>k. own_positions s' k = (if k = Order.symbol ord
                 then own_positions s k - fill_volume (sell_fills ord od) else own_positions s k)"
      "\<And>k. seashells_by_product s' k = (if k = Order.symbol ord
                 then seashells_by_product s k + of_int (fill_value (sell_fills ord od))
                 else seashells_by_product s k)"
    unfolding Let_def sell_fills_def by blast
  have "match_order ts ord s = Inr (s'\<lparr>order_depths := (order_depths s')(Order.symbol ord \<mapsto> od')\<rparr>)"
    using q od r by (simp add: match_order_def matchable_bids_def)
  then show ?thesis
    by (simp add: e)
qed

lemma spec_fills_member:
  "(p, f) \<in> set (spec_fills q lv) \<Longrightarrow> \<exists>r. (p, r) \<in> set lv \<and> f \<le> r"
proof (induction lv arbitrary: q)
  case Nil
  then show ?case by simp
next
  case (Cons l lv)
  obtain p' r' where l: "l = (p', r')" by (cases l)
  from Cons.prems consider "(p, f) = (p', min q r')" | "(p, f) \<in> set (spec_fills (q - min q r') lv)"
    by (auto simp: l Let_def split: if_splits)
  then show ?case
  proof cases
    case 1
    then show ?thesis by (auto simp: l)
  next
    case 2
    from Cons.IH [OF this] show ?thesis by auto
  qed
qed

lemma fills_distinct:
  "distinct ms \<Longrightarrow> distinct (map fst (spec_fills q (map (\<lambda>p. (p, r p)) ms)))"
proof -
  assume "distinct ms"
  have "map fst (spec_fills q (map (\<lambda>p. (p, r p)) ms))
        = take (length (spec_fills q (map (\<lambda>p. (p, r p)) ms))) ms"
    using spec_fills_prefix [of q "map (\<lambda>p. (p, r p)) ms"] by (simp add: comp_def)
  with \<open>distinct ms\<close> show ?thesis by simp
qed

text \<open>
  Claim C3: take a buy order (positive quantity) and a state whose book for the order's
  symbol has distinct ask prices stored with the sign of line 188 (minus the volume).
  \<^verbatim>\<open>match_order\<close> returns. The matchable ask levels are the ask prices up to the limit
  price, in ascending order, and the prices of the fills are a beginning of that list: no
  level is skipped. Before each fill the remaining quantity is positive and the fill is the
  minimum of the remaining quantity and the resting volume of the level; if a matchable
  level is left unvisited, the order is filled completely. One trade per fill is appended,
  the position of the symbol grows by the filled volume and its cash falls by the sum of
  price times volume; other symbols are untouched. The bid side is unchanged; each filled
  level's resting volume shrinks by its fill and the level is in the book afterwards
  exactly when the rest is not zero; unfilled levels are unchanged and no level is added,
  so an unfilled remainder does not rest in the book. With a limit price below every ask
  price there is no fill and the state is unchanged.
\<close>

theorem buy_order_matching:
  assumes q: "Order.quantity ord > 0"
    and od: "order_depths s (Order.symbol ord) = Some od"
    and d: "distinct (map fst (sell_orders od))"
    and neg: "\<forall>pv \<in> set (sell_orders od). snd pv \<le> 0"
  shows "\<exists>s' od'. match_order ts ord s = Inr s'
     \<and> order_depths s' = (order_depths s)(Order.symbol ord \<mapsto> od')
     \<and> sorted (matchable_asks od (Order.price ord))
     \<and> distinct (matchable_asks od (Order.price ord))
     \<and> set (matchable_asks od (Order.price ord))
          = {p \<in> fst ` set (sell_orders od). p \<le> Order.price ord}
     \<and> map fst (buy_fills ord od)
          = take (length (buy_fills ord od)) (matchable_asks od (Order.price ord))
     \<and> (\<forall>i < length (buy_fills ord od).
           0 < Order.quantity ord - fill_volume (take i (buy_fills ord od))
           \<and> snd (buy_fills ord od ! i)
               = min (Order.quantity ord - fill_volume (take i (buy_fills ord od)))
                     (resting_ask od (fst (buy_fills ord od ! i))))
     \<and> (length (buy_fills ord od) < length (matchable_asks od (Order.price ord)) \<longrightarrow>
           fill_volume (buy_fills ord od) = Order.quantity ord)
     \<and> trades_of s' (Order.symbol ord)
          = trades_of s (Order.symbol ord) @ map (buy_trade (Order.symbol ord) ts) (buy_fills ord od)
     \<and> own_positions s' (Order.symbol ord)
          = own_positions s (Order.symbol ord) + fill_volume (buy_fills ord od)
     \<and> seashells_by_product s' (Order.symbol ord)
          = seashells_by_product s (Order.symbol ord) - of_int (fill_value (buy_fills ord od))
     \<and> (\<forall>k. k \<noteq> Order.symbol ord \<longrightarrow>
           trades_of s' k = trades_of s k \<and> own_positions s' k = own_positions s k
           \<and> seashells_by_product s' k = seashells_by_product s k)
     \<and> buy_orders od' = buy_orders od
     \<and> (\<forall>p f. (p, f) \<in> set (buy_fills ord od) \<longrightarrow>
           resting_ask od' p = resting_ask od p - f
           \<and> (p \<in> fst ` set (sell_orders od') \<longleftrightarrow> resting_ask od p - f \<noteq> 0))
     \<and> (\<forall>p. p \<notin> fst ` set (buy_fills ord od) \<longrightarrow>
           map_of (sell_orders od') p = map_of (sell_orders od) p)
     \<and> fst ` set (sell_orders od') \<subseteq> fst ` set (sell_orders od)
     \<and> ((\<forall>p \<in> fst ` set (sell_orders od). Order.price ord < p) \<longrightarrow>
           buy_fills ord od = [] \<and> s' = s)"
proof -
  define ms where "ms = matchable_asks od (Order.price ord)"
  define fills where "fills = buy_fills ord od"
  define od' where "od' = od\<lparr>sell_orders := deplete (+) fills (sell_orders od)\<rparr>"
  define lv where "lv = map (\<lambda>p. (p, resting_ask od p)) ms"
  have fills_lv: "fills = spec_fills (Order.quantity ord) lv"
    by (simp add: fills_def buy_fills_def lv_def ms_def)
  from match_order_buy [OF q od d, of ts] obtain s' where
    r: "match_order ts ord s = Inr s'"
    and e: "order_depths s' = (order_depths s)(Order.symbol ord \<mapsto> od')"
      "\<And>k. trades_of s' k = (if k = Order.symbol ord
                 then trades_of s k @ map (buy_trade k ts) fills else trades_of s k)"
      "\<And>k. own_positions s' k = (if k = Order.symbol ord
                 then own_positions s k + fill_volume fills else own_positions s k)"
      "\<And>k. seashells_by_product s' k = (if k = Order.symbol ord
                 then seashells_by_product s k - of_int (fill_value fills)
                 else seashells_by_product s k)"
    unfolding od'_def fills_def by blast
  note m = matchable_asks_props [OF d, of "Order.price ord", folded ms_def]
  have prefix: "map fst fills = take (length fills) ms"
    using spec_fills_prefix [of "Order.quantity ord" lv] by (simp add: fills_lv lv_def comp_def)
  have len: "length fills \<le> length ms"
    using spec_fills_length [of "Order.quantity ord" lv] by (simp add: fills_lv lv_def)
  have rule: "0 < Order.quantity ord - fill_volume (take i fills)
           \<and> snd (fills ! i) = min (Order.quantity ord - fill_volume (take i fills))
                                   (resting_ask od (fst (fills ! i)))"
    if i: "i < length fills" for i
  proof -
    from i len have "i < length ms" by simp
    then have lvi: "lv ! i = (ms ! i, resting_ask od (ms ! i))"
      by (simp add: lv_def)
    from spec_fills_nth [of i "Order.quantity ord" lv] i
    have "fills ! i = (ms ! i, min (Order.quantity ord - fill_volume (take i fills))
                                    (resting_ask od (ms ! i)))"
      by (simp add: fills_lv lvi fill_volume_def)
    moreover from spec_fills_remaining [OF q, of i lv] i
    have "0 < Order.quantity ord - fill_volume (take i fills)"
      by (simp add: fills_lv fill_volume_def)
    ultimately show ?thesis by simp
  qed
  have stop: "length fills < length ms \<longrightarrow> fill_volume fills = Order.quantity ord"
    using spec_fills_stop [of "Order.quantity ord" lv] by (simp add: fills_lv lv_def)
  have dist: "distinct (map fst fills)"
    unfolding fills_lv lv_def by (rule fills_distinct [OF m(1)])
  have book: "resting_ask od' p = resting_ask od p - f
           \<and> (p \<in> fst ` set (sell_orders od') \<longleftrightarrow> resting_ask od p - f \<noteq> 0)"
    if pf: "(p, f) \<in> set fills" for p f
  proof -
    from pf dist have mf: "map_of fills p = Some f" by simp
    from spec_fills_member [OF pf [unfolded fills_lv]] obtain r' where
      "(p, r') \<in> set lv" "f \<le> r'" by blast
    then have pm: "p \<in> set ms" and fr: "f \<le> resting_ask od p"
      by (auto simp: lv_def)
    from pm m(3) have "map_of (sell_orders od) p \<noteq> None"
      by (simp add: map_of_eq_None_iff)
    then obtain v where v: "map_of (sell_orders od) p = Some v" by auto
    then have "(p, v) \<in> set (sell_orders od)" by (rule map_of_SomeD)
    with neg have v0: "v \<le> 0" by fastforce
    from v v0 have ra: "resting_ask od p = - v" by (simp add: resting_ask_def)
    have new: "map_of (sell_orders od') p = (if v + f = 0 then None else Some (v + f))"
      by (simp add: od'_def map_of_deplete [OF dist] mf v)
    from new ra fr have "resting_ask od' p = resting_ask od p - f"
      by (simp add: resting_ask_def)
    moreover have "p \<in> fst ` set (sell_orders od') \<longleftrightarrow> map_of (sell_orders od') p \<noteq> None"
      by (simp add: map_of_eq_None_iff)
    with new ra have "p \<in> fst ` set (sell_orders od') \<longleftrightarrow> resting_ask od p - f \<noteq> 0"
      by auto
    ultimately show ?thesis by simp
  qed
  have untouched: "map_of (sell_orders od') p = map_of (sell_orders od) p"
    if "p \<notin> fst ` set fills" for p
  proof -
    from that have "map_of fills p = None" by (simp add: map_of_eq_None_iff)
    then show ?thesis by (simp add: od'_def map_of_deplete [OF dist])
  qed
  have keys: "fst ` set (sell_orders od') \<subseteq> fst ` set (sell_orders od)"
    by (simp add: od'_def keys_deplete)
  have below: "fills = [] \<and> s' = s" if b: "\<forall>p \<in> fst ` set (sell_orders od). Order.price ord < p"
  proof -
    from b have "filter (\<lambda>p. p \<le> Order.price ord) (map fst (sell_orders od)) = []"
      by (auto simp: filter_empty_conv)
    then have ms0: "ms = []" by (simp add: ms_def matchable_asks_def)
    then have f0: "fills = []" by (simp add: fills_lv lv_def)
    have "match_order ts ord s = Inr (s\<lparr>order_depths := (order_depths s)(Order.symbol ord \<mapsto> od)\<rparr>)"
      using q od ms0 by (simp add: match_order_def ms_def matchable_asks_def)
    moreover have "(order_depths s)(Order.symbol ord \<mapsto> od) = order_depths s"
      using od by (rule map_upd_triv)
    ultimately have "match_order ts ord s = Inr s" by simp
    with r f0 show ?thesis by simp
  qed
  show ?thesis
    unfolding ms_def [symmetric] fills_def [symmetric]
  proof (rule exI [of _ s'], rule exI [of _ od'], intro conjI)
    show "match_order ts ord s = Inr s'" by (rule r)
    show "order_depths s' = (order_depths s)(Order.symbol ord \<mapsto> od')" by (rule e(1))
    show "sorted ms" by (rule m(2))
    show "distinct ms" by (rule m(1))
    show "set ms = {p \<in> fst ` set (sell_orders od). p \<le> Order.price ord}" by (rule m(3))
    show "map fst fills = take (length fills) ms" by (rule prefix)
    show "\<forall>i < length fills.
           0 < Order.quantity ord - fill_volume (take i fills)
           \<and> snd (fills ! i) = min (Order.quantity ord - fill_volume (take i fills))
                                   (resting_ask od (fst (fills ! i)))"
      using rule by blast
    show "length fills < length ms \<longrightarrow> fill_volume fills = Order.quantity ord" by (rule stop)
    show "trades_of s' (Order.symbol ord)
          = trades_of s (Order.symbol ord) @ map (buy_trade (Order.symbol ord) ts) fills"
      by (simp add: e(2))
    show "own_positions s' (Order.symbol ord)
          = own_positions s (Order.symbol ord) + fill_volume fills"
      by (simp add: e(3))
    show "seashells_by_product s' (Order.symbol ord)
          = seashells_by_product s (Order.symbol ord) - of_int (fill_value fills)"
      by (simp add: e(4))
    show "\<forall>k. k \<noteq> Order.symbol ord \<longrightarrow>
           trades_of s' k = trades_of s k \<and> own_positions s' k = own_positions s k
           \<and> seashells_by_product s' k = seashells_by_product s k"
      by (simp add: e)
    show "buy_orders od' = buy_orders od" by (simp add: od'_def)
    show "\<forall>p f. (p, f) \<in> set fills \<longrightarrow>
           resting_ask od' p = resting_ask od p - f
           \<and> (p \<in> fst ` set (sell_orders od') \<longleftrightarrow> resting_ask od p - f \<noteq> 0)"
      using book by blast
    show "\<forall>p. p \<notin> fst ` set fills \<longrightarrow> map_of (sell_orders od') p = map_of (sell_orders od) p"
      using untouched by blast
    show "fst ` set (sell_orders od') \<subseteq> fst ` set (sell_orders od)" by (rule keys)
    show "(\<forall>p \<in> fst ` set (sell_orders od). Order.price ord < p) \<longrightarrow> fills = [] \<and> s' = s"
      using below by blast
  qed
qed

lemma resting_bid_nonneg:
  assumes "\<forall>pv \<in> set (buy_orders od). snd pv \<ge> 0"
  shows "resting_bid od p \<ge> 0"
proof (cases "map_of (buy_orders od) p")
  case None
  then show ?thesis by (simp add: resting_bid_def)
next
  case (Some v)
  then have "(p, v) \<in> set (buy_orders od)" by (rule map_of_SomeD)
  with assms have "v \<ge> 0" by fastforce
  with Some show ?thesis by (simp add: resting_bid_def)
qed

text \<open>
  Claim C4: take a sell order (negative quantity) and a state whose book for the order's
  symbol has distinct bid prices with volumes that are not negative. \<^verbatim>\<open>match_order\<close>
  returns. The matchable bid levels are the bid prices from the limit price up, in
  descending order, and the prices of the fills are a beginning of that list: the highest
  matchable bid is filled first and no matchable level is skipped. Before each fill the
  remaining quantity is positive and the fill is the minimum of the remaining quantity and
  the resting volume; if a matchable level is left unvisited, the order is filled
  completely. One trade per fill is appended, the position of the symbol falls by the
  filled volume and its cash grows by the sum of price times volume.
\<close>

theorem sell_order_matching:
  assumes q: "Order.quantity ord < 0"
    and od: "order_depths s (Order.symbol ord) = Some od"
    and d: "distinct (map fst (buy_orders od))"
    and nn: "\<forall>pv \<in> set (buy_orders od). snd pv \<ge> 0"
  shows "\<exists>s'. match_order ts ord s = Inr s'
     \<and> sorted (rev (matchable_bids od (Order.price ord)))
     \<and> distinct (matchable_bids od (Order.price ord))
     \<and> set (matchable_bids od (Order.price ord))
          = {p \<in> fst ` set (buy_orders od). p \<ge> Order.price ord}
     \<and> map fst (sell_fills ord od)
          = take (length (sell_fills ord od)) (matchable_bids od (Order.price ord))
     \<and> (\<forall>i < length (sell_fills ord od).
           0 < - Order.quantity ord - fill_volume (take i (sell_fills ord od))
           \<and> snd (sell_fills ord od ! i)
               = min (- Order.quantity ord - fill_volume (take i (sell_fills ord od)))
                     (resting_bid od (fst (sell_fills ord od ! i))))
     \<and> (length (sell_fills ord od) < length (matchable_bids od (Order.price ord)) \<longrightarrow>
           fill_volume (sell_fills ord od) = - Order.quantity ord)
     \<and> trades_of s' (Order.symbol ord)
          = trades_of s (Order.symbol ord) @ map (sell_trade (Order.symbol ord) ts) (sell_fills ord od)
     \<and> own_positions s' (Order.symbol ord)
          = own_positions s (Order.symbol ord) - fill_volume (sell_fills ord od)
     \<and> seashells_by_product s' (Order.symbol ord)
          = seashells_by_product s (Order.symbol ord) + of_int (fill_value (sell_fills ord od))
     \<and> (\<forall>k. k \<noteq> Order.symbol ord \<longrightarrow>
           trades_of s' k = trades_of s k \<and> own_positions s' k = own_positions s k
           \<and> seashells_by_product s' k = seashells_by_product s k)"
proof -
  define ms where "ms = matchable_bids od (Order.price ord)"
  define fills where "fills = sell_fills ord od"
  define lv where "lv = map (\<lambda>p. (p, resting_bid od p)) ms"
  have fills_lv: "fills = spec_fills (- Order.quantity ord) lv"
    by (simp add: fills_def sell_fills_def lv_def ms_def)
  from q have q': "0 < - Order.quantity ord" by simp
  from match_order_sell [OF q od d nn, of ts] obtain s' where
    r: "match_order ts ord s = Inr s'"
    and e: "\<And>k. trades_of s' k = (if k = Order.symbol ord
                 then trades_of s k @ map (sell_trade k ts) fills else trades_of s k)"
      "\<And>k. own_positions s' k = (if k = Order.symbol ord
                 then own_positions s k - fill_volume fills else own_positions s k)"
      "\<And>k. seashells_by_product s' k = (if k = Order.symbol ord
                 then seashells_by_product s k + of_int (fill_value fills)
                 else seashells_by_product s k)"
    unfolding fills_def by blast
  note m = matchable_bids_props [OF d, of "Order.price ord", folded ms_def]
  have prefix: "map fst fills = take (length fills) ms"
    using spec_fills_prefix [of "- Order.quantity ord" lv] by (simp add: fills_lv lv_def comp_def)
  have len: "length fills \<le> length ms"
    using spec_fills_length [of "- Order.quantity ord" lv] by (simp add: fills_lv lv_def)
  have rule: "0 < - Order.quantity ord - fill_volume (take i fills)
           \<and> snd (fills ! i) = min (- Order.quantity ord - fill_volume (take i fills))
                                   (resting_bid od (fst (fills ! i)))"
    if i: "i < length fills" for i
  proof -
    from i len have "i < length ms" by simp
    then have lvi: "lv ! i = (ms ! i, resting_bid od (ms ! i))"
      by (simp add: lv_def)
    from spec_fills_nth [of i "- Order.quantity ord" lv] i
    have "fills ! i = (ms ! i, min (- Order.quantity ord - fill_volume (take i fills))
                                    (resting_bid od (ms ! i)))"
      by (simp add: fills_lv lvi fill_volume_def)
    moreover from spec_fills_remaining [OF q', of i lv] i
    have "0 < - Order.quantity ord - fill_volume (take i fills)"
      by (simp add: fills_lv fill_volume_def)
    ultimately show ?thesis by simp
  qed
  have stop: "length fills < length ms \<longrightarrow> fill_volume fills = - Order.quantity ord"
    using spec_fills_stop [of "- Order.quantity ord" lv] by (simp add: fills_lv lv_def)
  show ?thesis
    unfolding ms_def [symmetric] fills_def [symmetric]
  proof (rule exI [of _ s'], intro conjI)
    show "match_order ts ord s = Inr s'" by (rule r)
    show "sorted (rev ms)" by (rule m(2))
    show "distinct ms" by (rule m(1))
    show "set ms = {p \<in> fst ` set (buy_orders od). p \<ge> Order.price ord}" by (rule m(3))
    show "map fst fills = take (length fills) ms" by (rule prefix)
    show "\<forall>i < length fills.
           0 < - Order.quantity ord - fill_volume (take i fills)
           \<and> snd (fills ! i) = min (- Order.quantity ord - fill_volume (take i fills))
                                   (resting_bid od (fst (fills ! i)))"
      using rule by blast
    show "length fills < length ms \<longrightarrow> fill_volume fills = - Order.quantity ord" by (rule stop)
    show "trades_of s' (Order.symbol ord)
          = trades_of s (Order.symbol ord) @ map (sell_trade (Order.symbol ord) ts) fills"
      by (simp add: e(1))
    show "own_positions s' (Order.symbol ord)
          = own_positions s (Order.symbol ord) - fill_volume fills"
      by (simp add: e(2))
    show "seashells_by_product s' (Order.symbol ord)
          = seashells_by_product s (Order.symbol ord) + of_int (fill_value fills)"
      by (simp add: e(3))
    show "\<forall>k. k \<noteq> Order.symbol ord \<longrightarrow>
           trades_of s' k = trades_of s k \<and> own_positions s' k = own_positions s k
           \<and> seashells_by_product s' k = seashells_by_product s k"
      by (simp add: e)
  qed
qed

lemma pearls_depth: "order_depth_of_row pearls_row
   = \<lparr>buy_orders = [(10, 5), (9, 4), (8, 3)], sell_orders = [(12, -5), (13, -4), (14, -3)]\<rparr>"
  by (simp add: order_depth_of_row_def pearls_row_def)

lemma pearls_book_depth:
  "order_depths pearls_book ''PEARLS''
   = Some \<lparr>buy_orders = [(10, 5), (9, 4), (8, 3)], sell_orders = [(12, -5), (13, -4), (14, -3)]\<rparr>"
  by (simp add: pearls_book_def pearls_depth)

lemma buy_7_fills:
  "buy_fills buy_7_at_13
     \<lparr>buy_orders = [(10, 5), (9, 4), (8, 3)], sell_orders = [(12, -5), (13, -4), (14, -3)]\<rparr>
   = [(12, 5), (13, 2)]"
  by (simp add: buy_7_at_13_def buy_fills_def matchable_asks_def resting_ask_def Let_def)

lemma sell_7_fills:
  "sell_fills sell_7_at_9
     \<lparr>buy_orders = [(10, 5), (9, 4), (8, 3)], sell_orders = [(12, -5), (13, -4), (14, -3)]\<rparr>
   = [(10, 5), (9, 2)]"
  by (simp add: sell_7_at_9_def sell_fills_def matchable_bids_def resting_bid_def Let_def)

text \<open>
  Witness for C3: asks 12, 13, 14 with volumes 5, 4, 3; a buy of 7 at 13 fills 5 at 12 and
  2 at 13. The level 12 is removed, the level 13 keeps 2, the level 14 is untouched.
\<close>

theorem buy_order_matching_witness:
  "\<exists>s' od'. match_order 0 buy_7_at_13 pearls_book = Inr s'
     \<and> order_depths s' ''PEARLS'' = Some od'
     \<and> trades_of s' ''PEARLS''
         = [\<lparr>Trade.symbol = ''PEARLS'', price = 12, quantity = 5, buyer = ''SUBMISSION'',
              seller = [], timestamp = 0\<rparr>,
            \<lparr>Trade.symbol = ''PEARLS'', price = 13, quantity = 2, buyer = ''SUBMISSION'',
              seller = [], timestamp = 0\<rparr>]
     \<and> own_positions s' ''PEARLS'' = 7
     \<and> seashells_by_product s' ''PEARLS'' = - 86
     \<and> resting_ask od' 12 = 0 \<and> 12 \<notin> fst ` set (sell_orders od')
     \<and> resting_ask od' 13 = 2 \<and> 13 \<in> fst ` set (sell_orders od')
     \<and> map_of (sell_orders od') 14 = Some (- 3)"
proof -
  have q: "Order.quantity buy_7_at_13 > 0" and sy: "Order.symbol buy_7_at_13 = ''PEARLS''"
    by (simp_all add: buy_7_at_13_def)
  have od: "order_depths pearls_book (Order.symbol buy_7_at_13)
            = Some \<lparr>buy_orders = [(10, 5), (9, 4), (8, 3)],
                    sell_orders = [(12, -5), (13, -4), (14, -3)]\<rparr>"
    by (simp add: sy pearls_book_depth)
  have d: "distinct (map fst (sell_orders
             \<lparr>buy_orders = [(10, 5), (9, 4), (8, 3)],
              sell_orders = [(12, -5), (13, -4), (14, -3 :: int)]\<rparr>))"
    by simp
  have neg: "\<forall>pv \<in> set (sell_orders
             \<lparr>buy_orders = [(10, 5), (9, 4), (8, 3)],
              sell_orders = [(12, -5), (13, -4), (14, -3 :: int)]\<rparr>). snd pv \<le> 0"
    by simp
  have start: "trades_of pearls_book ''PEARLS'' = []" "own_positions pearls_book ''PEARLS'' = 0"
    "seashells_by_product pearls_book ''PEARLS'' = 0"
    by (simp_all add: pearls_book_def trades_of_def)
  have rest: "resting_ask \<lparr>buy_orders = [(10, 5), (9, 4), (8, 3)],
                 sell_orders = [(12, -5), (13, -4), (14, -3)]\<rparr> 12 = 5"
    "resting_ask \<lparr>buy_orders = [(10, 5), (9, 4), (8, 3)],
                 sell_orders = [(12, -5), (13, -4), (14, -3)]\<rparr> 13 = 4"
    by (simp_all add: resting_ask_def)
  show ?thesis
    using buy_order_matching [OF q od d neg, of 0, unfolded buy_7_fills sy]
  proof (elim exE conjE)
    fix s' od'
    assume r: "match_order 0 buy_7_at_13 pearls_book = Inr s'"
      and b: "order_depths s' = (order_depths pearls_book)(''PEARLS'' \<mapsto> od')"
      and t: "trades_of s' ''PEARLS''
            = trades_of pearls_book ''PEARLS'' @ map (buy_trade ''PEARLS'' 0) [(12, 5), (13, 2)]"
      and p: "own_positions s' ''PEARLS''
            = own_positions pearls_book ''PEARLS'' + fill_volume [(12, 5), (13, 2)]"
      and c: "seashells_by_product s' ''PEARLS''
            = seashells_by_product pearls_book ''PEARLS'' - of_int (fill_value [(12, 5), (13, 2)])"
      and f: "\<forall>p f. (p, f) \<in> set [(12, 5), (13, 2)] \<longrightarrow>
           resting_ask od' p = resting_ask \<lparr>buy_orders = [(10, 5), (9, 4), (8, 3)],
                 sell_orders = [(12, -5), (13, -4), (14, -3)]\<rparr> p - f
           \<and> (p \<in> fst ` set (sell_orders od') \<longleftrightarrow>
                resting_ask \<lparr>buy_orders = [(10, 5), (9, 4), (8, 3)],
                 sell_orders = [(12, -5), (13, -4), (14, -3)]\<rparr> p - f \<noteq> 0)"
      and u: "\<forall>p. p \<notin> fst ` set [(12, 5), (13, 2 :: int)] \<longrightarrow>
           map_of (sell_orders od') p = map_of (sell_orders \<lparr>buy_orders = [(10, 5), (9, 4), (8, 3)],
                 sell_orders = [(12, -5), (13, -4), (14, -3)]\<rparr>) p"
    from f [rule_format, of 12 5] have f12: "resting_ask od' 12 = 0" "12 \<notin> fst ` set (sell_orders od')"
      by (simp_all add: rest)
    from f [rule_format, of 13 2] have f13: "resting_ask od' 13 = 2" "13 \<in> fst ` set (sell_orders od')"
      by (simp_all add: rest)
    from u [rule_format, of 14] have u14: "map_of (sell_orders od') 14 = Some (- 3)"
      by simp
    have t': "trades_of s' ''PEARLS''
         = [\<lparr>Trade.symbol = ''PEARLS'', price = 12, quantity = 5, buyer = ''SUBMISSION'',
              seller = [], timestamp = 0\<rparr>,
            \<lparr>Trade.symbol = ''PEARLS'', price = 13, quantity = 2, buyer = ''SUBMISSION'',
              seller = [], timestamp = 0\<rparr>]"
      by (simp add: t start buy_trade_def)
    have p': "own_positions s' ''PEARLS'' = 7"
      by (simp add: p start fill_volume_def)
    have c': "seashells_by_product s' ''PEARLS'' = - 86"
      by (simp add: c start fill_value_def)
    have b': "order_depths s' ''PEARLS'' = Some od'"
      by (simp add: b)
    show ?thesis
      by (rule exI [of _ s'], rule exI [of _ od']) (simp add: r b' t' p' c' f12 f13 u14)
  qed
qed

text \<open>
  Witness for C4: bids 10, 9, 8 with volumes 5, 4, 3; a sale of 7 at 9 fills 5 at 10 and
  then 2 at 9.
\<close>

theorem sell_order_matching_witness:
  "\<exists>s'. match_order 0 sell_7_at_9 pearls_book = Inr s'
     \<and> trades_of s' ''PEARLS''
         = [\<lparr>Trade.symbol = ''PEARLS'', price = 10, quantity = 5, buyer = [],
              seller = ''SUBMISSION'', timestamp = 0\<rparr>,
            \<lparr>Trade.symbol = ''PEARLS'', price = 9, quantity = 2, buyer = [],
              seller = ''SUBMISSION'', timestamp = 0\<rparr>]
     \<and> own_positions s' ''PEARLS'' = - 7
     \<and> seashells_by_product s' ''PEARLS'' = 68"
proof -
  have q: "Order.quantity sell_7_at_9 < 0" and sy: "Order.symbol sell_7_at_9 = ''PEARLS''"
    by (simp_all add: sell_7_at_9_def)
  have od: "order_depths pearls_book (Order.symbol sell_7_at_9)
            = Some \<lparr>buy_orders = [(10, 5), (9, 4), (8, 3)],
                    sell_orders = [(12, -5), (13, -4), (14, -3)]\<rparr>"
    by (simp add: sy pearls_book_depth)
  have d: "distinct (map fst (buy_orders
             \<lparr>buy_orders = [(10, 5), (9, 4), (8, 3 :: int)],
              sell_orders = [(12, -5), (13, -4), (14, -3)]\<rparr>))"
    by simp
  have nn: "\<forall>pv \<in> set (buy_orders
             \<lparr>buy_orders = [(10, 5), (9, 4), (8, 3 :: int)],
              sell_orders = [(12, -5), (13, -4), (14, -3)]\<rparr>). snd pv \<ge> 0"
    by simp
  have start: "trades_of pearls_book ''PEARLS'' = []" "own_positions pearls_book ''PEARLS'' = 0"
    "seashells_by_product pearls_book ''PEARLS'' = 0"
    by (simp_all add: pearls_book_def trades_of_def)
  show ?thesis
    using sell_order_matching [OF q od d nn, of 0, unfolded sell_7_fills sy]
  proof (elim exE conjE)
    fix s'
    assume r: "match_order 0 sell_7_at_9 pearls_book = Inr s'"
      and t: "trades_of s' ''PEARLS''
            = trades_of pearls_book ''PEARLS'' @ map (sell_trade ''PEARLS'' 0) [(10, 5), (9, 2)]"
      and p: "own_positions s' ''PEARLS''
            = own_positions pearls_book ''PEARLS'' - fill_volume [(10, 5), (9, 2)]"
      and c: "seashells_by_product s' ''PEARLS''
            = seashells_by_product pearls_book ''PEARLS'' + of_int (fill_value [(10, 5), (9, 2)])"
    have t': "trades_of s' ''PEARLS''
         = [\<lparr>Trade.symbol = ''PEARLS'', price = 10, quantity = 5, buyer = [],
              seller = ''SUBMISSION'', timestamp = 0\<rparr>,
            \<lparr>Trade.symbol = ''PEARLS'', price = 9, quantity = 2, buyer = [],
              seller = ''SUBMISSION'', timestamp = 0\<rparr>]"
      by (simp add: t start sell_trade_def)
    have p': "own_positions s' ''PEARLS'' = - 7"
      by (simp add: p start fill_volume_def)
    have c': "seashells_by_product s' ''PEARLS'' = 68"
      by (simp add: c start fill_value_def)
    show ?thesis
      by (rule exI [of _ s']) (simp add: r t' p' c')
  qed
qed

end
